theory Spec2Isabelle
  imports Main
begin

section \<open>JSON values and the Python operations the fetchers apply to them\<close>

text \<open>
  A decoded response body (\<^verbatim>\<open>r.json()\<close>). Objects are association lists read with
  \<open>map_of\<close>; a decoded dict has distinct keys. Number literals with a fraction or an
  exponent (Python floats) are outside the model.
\<close>

datatype json =
    JNull
  | JBool bool
  | JInt int
  | JStr string
  | JArr "json list"
  | JObj "(string \<times> json) list"

text \<open>
  The exceptions the fetchers can meet. \<open>DateError\<close> stands for the exception of the
  \<^verbatim>\<open>datetime\<close> library on a time it cannot hold: ValueError, OSError or OverflowError,
  according to the magnitude of the value and to the C library. Every handler of the
  program is \<^verbatim>\<open>except Exception\<close> and does not look at the kind.
\<close>

datatype py_error = AttributeError | TypeError | ValueError | DateError

text \<open>Python truthiness, as used by \<^verbatim>\<open>a or b\<close> and \<^verbatim>\<open>not lst\<close>.\<close>

fun truthy :: "json \<Rightarrow> bool" where
  "truthy JNull = False"
| "truthy (JBool b) = b"
| "truthy (JInt n) = (n \<noteq> 0)"
| "truthy (JStr s) = (s \<noteq> [])"
| "truthy (JArr xs) = (xs \<noteq> [])"
| "truthy (JObj kvs) = (kvs \<noteq> [])"

text \<open>\<^verbatim>\<open>a or b\<close>: the first operand when it is truthy, the second otherwise.\<close>

definition py_or :: "json \<Rightarrow> json \<Rightarrow> json" where
  "py_or a b = (if truthy a then a else b)"

text \<open>
  \<^verbatim>\<open>item.get(k)\<close>: only a dict has the method; a missing key gives \<^verbatim>\<open>None\<close>.
\<close>

fun dict_get :: "json \<Rightarrow> string \<Rightarrow> py_error + json" where
  "dict_get (JObj kvs) k = Inr (case map_of kvs k of None \<Rightarrow> JNull | Some v \<Rightarrow> v)"
| "dict_get _ k = Inl AttributeError"

text \<open>
  \<^verbatim>\<open>item.get(k1) or item.get(k2) or ...\<close>: the first truthy value, else the value of the
  last key; AttributeError when the item is not a dict.
\<close>

fun get_first :: "json \<Rightarrow> string list \<Rightarrow> py_error + json" where
  "get_first item [] = Inr JNull"
| "get_first item [k] = dict_get item k"
| "get_first item (k # ks) =
     (case dict_get item k of
        Inl e \<Rightarrow> Inl e
      | Inr v \<Rightarrow> if truthy v then Inr v else get_first item ks)"

subsection \<open>\<^verbatim>\<open>int(x)\<close>\<close>

text \<open>
  A string is the list of its code points, each below 256; text with a character beyond
  that is outside the model. Among these code points the white space that \<^verbatim>\<open>int\<close>
  strips is the space, the five ASCII controls TAB to CR, and the two Latin-1 characters
  NEL (\<open>0x85\<close>) and NBSP (\<open>0xA0\<close>); the only decimal digits are \<open>0\<close> to \<open>9\<close>.
\<close>

definition is_space :: "char \<Rightarrow> bool" where
  "is_space c =
     (c \<in> {CHR 0x20, CHR 0x09, CHR 0x0A, CHR 0x0B, CHR 0x0C, CHR 0x0D, CHR 0x85, CHR 0xA0})"

definition digit_val :: "char \<Rightarrow> nat option" where
  "digit_val c =
     (let n = (of_char c :: nat) in if 48 \<le> n \<and> n \<le> 57 then Some (n - 48) else None)"

text \<open>
  The digits of a decimal literal after its sign: a digit first, single underscores only
  between digits. The second argument counts the digits read.
\<close>

fun parse_digits :: "nat \<Rightarrow> nat \<Rightarrow> string \<Rightarrow> (nat \<times> nat) option" where
  "parse_digits acc cnt [] = Some (acc, cnt)"
| "parse_digits acc cnt [c] =
     (case digit_val c of None \<Rightarrow> None | Some v \<Rightarrow> Some (10 * acc + v, Suc cnt))"
| "parse_digits acc cnt (c # d # cs) =
     (if c = CHR ''_'' then
        (case digit_val d of
           None \<Rightarrow> None
         | Some v \<Rightarrow> parse_digits (10 * acc + v) (Suc cnt) cs)
      else
        (case digit_val c of
           None \<Rightarrow> None
         | Some v \<Rightarrow> parse_digits (10 * acc + v) (Suc cnt) (d # cs)))"

definition strip :: "string \<Rightarrow> string" where
  "strip s = rev (dropWhile is_space (rev (dropWhile is_space s)))"

text \<open>
  \<^verbatim>\<open>int(s)\<close> for a string: surrounding whitespace, an optional sign, decimal digits.
  More than 4300 digits is a ValueError (the interpreter's default limit).
\<close>

definition int_of_string :: "string \<Rightarrow> py_error + int" where
  "int_of_string s =
     (let t = strip s;
          (neg, body) = (case t of
                           c # cs \<Rightarrow> if c = CHR ''-'' then (True, cs)
                                     else if c = CHR ''+'' then (False, cs)
                                     else (False, t)
                         | [] \<Rightarrow> (False, t))
      in case body of
           [] \<Rightarrow> Inl ValueError
         | c # cs \<Rightarrow>
             if c = CHR ''_'' then Inl ValueError
             else (case parse_digits 0 0 body of
                     None \<Rightarrow> Inl ValueError
                   | Some (n, cnt) \<Rightarrow>
                       if cnt > 4300 then Inl ValueError
                       else Inr (if neg then - int n else int n)))"

fun py_int :: "json \<Rightarrow> py_error + int" where
  "py_int JNull = Inl TypeError"
| "py_int (JBool b) = Inr (if b then 1 else 0)"
| "py_int (JInt n) = Inr n"
| "py_int (JStr s) = int_of_string s"
| "py_int (JArr xs) = Inl TypeError"
| "py_int (JObj kvs) = Inl TypeError"

section \<open>\<^verbatim>\<open>iso_from_ms\<close>\<close>

text \<open>
  \<^verbatim>\<open>datetime.datetime.utcfromtimestamp(ms / 1000.0).isoformat() + "Z"\<close> (Binance, Bybit)
  and \<^verbatim>\<open>datetime.datetime.fromtimestamp(ms / 1000.0, datetime.UTC).isoformat()
  .replace("+00:00", "Z")\<close> (Hyperliquid) print the same string. A time is rendered
  exactly when it lies in the years 1 to 9999, that is from \<open>MIN_MS\<close> to \<open>MAX_MS\<close>;
  outside, the library raises (\<open>DateError\<close>).

  The text is computed in integer arithmetic on the proleptic Gregorian calendar, the
  quotient \<^verbatim>\<open>ms / 1000.0\<close> taken as exact. The double that Python computes is rounded to
  the microsecond by the library, which gives these digits for every time less than
  \<open>2^33\<close> seconds away from 1970 (the years 1698 to 2241); further out the last
  microsecond digits of the library can differ from the ones written here. Which times
  are rendered, and the value of \<^verbatim>\<open>funding_time_ms\<close>, do not depend on it.
\<close>

definition digit_char :: "nat \<Rightarrow> char" where
  "digit_char d = char_of (48 + d mod 10)"

fun zpad :: "nat \<Rightarrow> nat \<Rightarrow> string" where
  "zpad 0 n = []"
| "zpad (Suc w) n = zpad w (n div 10) @ [digit_char n]"

definition civil_from_days :: "int \<Rightarrow> int \<times> int \<times> int" where
  "civil_from_days days =
     (let z = days + 719468;
          era = z div 146097;
          doe = z - era * 146097;
          yoe = (doe - doe div 1460 + doe div 36524 - doe div 146096) div 365;
          y = yoe + era * 400;
          doy = doe - (365 * yoe + yoe div 4 - yoe div 100);
          mp = (5 * doy + 2) div 153;
          d = doy - (153 * mp + 2) div 5 + 1;
          m = (if mp < 10 then mp + 3 else mp - 9)
      in (if m \<le> 2 then y + 1 else y, m, d))"

definition MIN_MS :: int where
  "MIN_MS = - 62135596800000"

definition MAX_MS :: int where
  "MAX_MS = 253402300799999"

definition isoformat :: "int \<Rightarrow> string" where
  "isoformat ms =
     (let secs = ms div 1000;
          us = (ms mod 1000) * 1000;
          (y, m, d) = civil_from_days (secs div 86400);
          sod = secs mod 86400
      in zpad 4 (nat y) @ ''-'' @ zpad 2 (nat m) @ ''-'' @ zpad 2 (nat d) @ ''T''
         @ zpad 2 (nat (sod div 3600)) @ '':'' @ zpad 2 (nat (sod mod 3600 div 60)) @ '':''
         @ zpad 2 (nat (sod mod 60))
         @ (if us = 0 then [] else ''.'' @ zpad 6 (nat us)))"

definition iso_from_ms :: "int \<Rightarrow> py_error + string" where
  "iso_from_ms ms =
     (if ms < MIN_MS \<or> MAX_MS < ms then Inl DateError else Inr (isoformat ms @ ''Z''))"

section \<open>Records, requests and responses\<close>

text \<open>The dict every fetcher appends to \<^verbatim>\<open>results\<close>.\<close>

record funding_record =
  exchange :: string
  symbol :: string
  funding_time_ms :: int
  funding_time_iso :: string
  funding_rate :: json

text \<open>
  One page request either raises inside the \<^verbatim>\<open>try\<close> (timeout, connection error,
  \<^verbatim>\<open>raise_for_status\<close>, JSON decode error) or yields the decoded body.
\<close>

datatype response = Failed | Body json

text \<open>
  The network is a script: its \<open>n\<close>-th element answers the \<open>n\<close>-th request of a fetch,
  as a function of the request sent. A fetch that needs more answers than the script
  holds has no result (\<open>None\<close>).
\<close>

type_synonym 'q script = "('q \<Rightarrow> response) list"

text \<open>
  A loop body ends in \<open>Next\<close> (go round again) or \<open>Break\<close>; a \<^verbatim>\<open>for\<close> loop over the
  entries of a page ends in \<open>Done\<close> or in \<open>Raised\<close>, with the rows appended until then.
\<close>

datatype 's flow = Next 's | Break 's

datatype 's exec = Done 's | Raised py_error 's

section \<open>\<^verbatim>\<open>fetch_binance_funding\<close>\<close>

record binance_params =
  bn_symbol :: string
  bn_startTime :: int
  bn_endTime :: int
  bn_limit :: nat

record binance_state =
  bn_results :: "funding_record list"
  bn_cur_start :: int
  bn_sent :: "binance_params list"

text \<open>\<^verbatim>\<open>int(item.get("fundingTime"))\<close>\<close>

definition binance_time :: "json \<Rightarrow> py_error + int" where
  "binance_time item =
     (case dict_get item ''fundingTime'' of Inl e \<Rightarrow> Inl e | Inr v \<Rightarrow> py_int v)"

definition binance_row :: "string \<Rightarrow> json \<Rightarrow> py_error + funding_record" where
  "binance_row symb item =
     (case binance_time item of
        Inl e \<Rightarrow> Inl e
      | Inr ft \<Rightarrow>
     (case dict_get item ''fundingRate'' of
        Inl e \<Rightarrow> Inl e
      | Inr fr \<Rightarrow>
     (case iso_from_ms ft of
        Inl e \<Rightarrow> Inl e
      | Inr ts \<Rightarrow>
          Inr \<lparr>exchange = ''binance'', symbol = symb, funding_time_ms = ft,
               funding_time_iso = ts, funding_rate = fr\<rparr>)))"

fun binance_items :: "string \<Rightarrow> json list \<Rightarrow> funding_record list \<Rightarrow> funding_record list exec" where
  "binance_items symb [] results = Done results"
| "binance_items symb (item # items) results =
     (case binance_row symb item of
        Inl e \<Rightarrow> Raised e results
      | Inr row \<Rightarrow> binance_items symb items (results @ [row]))"

text \<open>\<^verbatim>\<open>int(data[-1].get("fundingTime"))\<close>\<close>

definition binance_last_time :: "json list \<Rightarrow> py_error + int" where
  "binance_last_time data = binance_time (last data)"

text \<open>One round of the \<^verbatim>\<open>while True\<close> loop; every exception is caught and breaks.\<close>

definition binance_body ::
  "string \<Rightarrow> int \<Rightarrow> (binance_params \<Rightarrow> response) \<Rightarrow> binance_state \<Rightarrow> binance_state flow" where
  "binance_body symb end_ms srv st =
     (let limit = 1000;
          params = \<lparr>bn_symbol = symb, bn_startTime = bn_cur_start st, bn_endTime = end_ms,
                    bn_limit = limit\<rparr>;
          st1 = st\<lparr>bn_sent := bn_sent st @ [params]\<rparr>
      in case srv params of
           Failed \<Rightarrow> Break st1
         | Body (JArr data) \<Rightarrow>
             if length data = 0 then Break st1
             else (case binance_items symb data (bn_results st1) of
                     Raised e rs \<Rightarrow> Break (st1\<lparr>bn_results := rs\<rparr>)
                   | Done rs \<Rightarrow>
                       if length data < limit then Break (st1\<lparr>bn_results := rs\<rparr>)
                       else (case binance_last_time data of
                               Inl e \<Rightarrow> Break (st1\<lparr>bn_results := rs\<rparr>)
                             | Inr last_time \<Rightarrow>
                                 Next (st1\<lparr>bn_results := rs, bn_cur_start := last_time + 1\<rparr>)))
         | Body _ \<Rightarrow> Break st1)"

text \<open>
  The loop over a script: \<open>Break st\<close> when the loop has been left in state \<open>st\<close>,
  \<open>Next st\<close> when the script is used up and the loop would send another request.
\<close>

fun binance_run :: "string \<Rightarrow> int \<Rightarrow> binance_params script \<Rightarrow> binance_state \<Rightarrow> binance_state flow" where
  "binance_run symb end_ms [] st = Next st"
| "binance_run symb end_ms (srv # rest) st =
     (case binance_body symb end_ms srv st of
        Break st' \<Rightarrow> Break st'
      | Next st' \<Rightarrow> binance_run symb end_ms rest st')"

definition binance_init :: "int \<Rightarrow> binance_state" where
  "binance_init start_ms = \<lparr>bn_results = [], bn_cur_start = start_ms, bn_sent = []\<rparr>"

definition fetch_binance_funding ::
  "binance_params script \<Rightarrow> string \<Rightarrow> int \<Rightarrow> int \<Rightarrow> funding_record list option" where
  "fetch_binance_funding net symb start_ms end_ms =
     (case binance_run symb end_ms net (binance_init start_ms) of
        Break st \<Rightarrow> Some (bn_results st)
      | Next st \<Rightarrow> None)"

text \<open>The requests the same call sends.\<close>

definition binance_requests ::
  "binance_params script \<Rightarrow> string \<Rightarrow> int \<Rightarrow> int \<Rightarrow> binance_params list option" where
  "binance_requests net symb start_ms end_ms =
     (case binance_run symb end_ms net (binance_init start_ms) of
        Break st \<Rightarrow> Some (bn_sent st)
      | Next st \<Rightarrow> None)"

section \<open>\<^verbatim>\<open>fetch_bybit_funding_v5\<close>\<close>

record bybit_params =
  by_category :: string
  by_symbol :: string
  by_startTime :: int
  by_endTime :: int
  by_limit :: nat

record bybit_state =
  by_results :: "funding_record list"
  by_cur_end :: int
  by_sent :: "bybit_params list"

text \<open>
  \<^verbatim>\<open>result_obj = j.get("result") if isinstance(j, dict) else None\<close> and the three-way
  choice of \<^verbatim>\<open>lst\<close> after it.
\<close>

fun bybit_lst :: "json \<Rightarrow> json" where
  "bybit_lst (JObj kvs) =
     (case map_of kvs ''result'' of
        Some (JObj res) \<Rightarrow>
          py_or (case map_of res ''list'' of None \<Rightarrow> JNull | Some v \<Rightarrow> v) (JArr [])
      | Some (JArr xs) \<Rightarrow> JArr xs
      | _ \<Rightarrow> JArr [])"
| "bybit_lst _ = JArr []"

text \<open>
  \<^verbatim>\<open>for item in lst\<close>: a list gives its elements, a string its characters, a dict its
  keys; nothing else can be iterated.
\<close>

fun py_iter :: "json \<Rightarrow> py_error + json list" where
  "py_iter (JArr xs) = Inr xs"
| "py_iter (JStr s) = Inr (map (\<lambda>c. JStr [c]) s)"
| "py_iter (JObj kvs) = Inr (map (\<lambda>kv. JStr (fst kv)) kvs)"
| "py_iter _ = Inl TypeError"

text \<open>
  \<^verbatim>\<open>ft_i = int(ft); if ft_i < 1e12: ft_i = ft_i * 1000\<close>, shared by Bybit and
  Hyperliquid.
\<close>

definition int_ms :: "json \<Rightarrow> py_error + int" where
  "int_ms ft =
     (case py_int ft of
        Inl e \<Rightarrow> Inl e
      | Inr ft_i \<Rightarrow> Inr (if ft_i < 1000000000000 then ft_i * 1000 else ft_i))"

text \<open>
  The row of one Bybit entry: \<open>Inr None\<close> is \<^verbatim>\<open>continue\<close>, \<open>Inl\<close> an exception
  that leaves the \<^verbatim>\<open>for\<close> loop. The parameter \<open>fromiso\<close> stands for
  \<^verbatim>\<open>int(datetime.datetime.fromisoformat(str(ft).replace("Z", "+00:00")).timestamp() * 1000)\<close>,
  \<open>None\<close> when that raises: the library's parser, the local time zone of a naive
  datetime and the floating-point product are not modelled.
\<close>

definition bybit_fr :: "json \<Rightarrow> py_error + json" where
  "bybit_fr item = get_first item [''fundingRate'', ''funding_rate'', ''funding'']"

definition bybit_ft :: "json \<Rightarrow> py_error + json" where
  "bybit_ft item =
     get_first item [''fundingRateTimestamp'', ''funding_time'', ''timestamp'', ''time'']"

definition bybit_row ::
  "(json \<Rightarrow> int option) \<Rightarrow> string \<Rightarrow> json \<Rightarrow> py_error + funding_record option" where
  "bybit_row fromiso symb item =
     (case bybit_fr item of
        Inl e \<Rightarrow> Inl e
      | Inr fr \<Rightarrow>
     (case bybit_ft item of
        Inl e \<Rightarrow> Inl e
      | Inr ft \<Rightarrow>
          if ft = JNull then Inr None
          else
            (case (case int_ms ft of Inr ft_i \<Rightarrow> Some ft_i | Inl e \<Rightarrow> fromiso ft) of
               None \<Rightarrow> Inr None
             | Some ft_i \<Rightarrow>
                 (case iso_from_ms ft_i of
                    Inl e \<Rightarrow> Inl e
                  | Inr ts \<Rightarrow>
                      Inr (Some \<lparr>exchange = ''bybit'', symbol = symb, funding_time_ms = ft_i,
                                 funding_time_iso = ts, funding_rate = fr\<rparr>)))))"

fun bybit_items ::
  "(json \<Rightarrow> int option) \<Rightarrow> string \<Rightarrow> json list \<Rightarrow> funding_record list
   \<Rightarrow> funding_record list exec" where
  "bybit_items fromiso symb [] results = Done results"
| "bybit_items fromiso symb (item # items) results =
     (case bybit_row fromiso symb item of
        Inl e \<Rightarrow> Raised e results
      | Inr None \<Rightarrow> bybit_items fromiso symb items results
      | Inr (Some row) \<Rightarrow> bybit_items fromiso symb items (results @ [row]))"

text \<open>\<^verbatim>\<open>int(lst[-1].get("fundingRateTimestamp"))\<close>\<close>

definition bybit_last_time :: "json list \<Rightarrow> py_error + int" where
  "bybit_last_time lst =
     (case dict_get (last lst) ''fundingRateTimestamp'' of
        Inl e \<Rightarrow> Inl e
      | Inr v \<Rightarrow> py_int v)"

definition bybit_body ::
  "(json \<Rightarrow> int option) \<Rightarrow> string \<Rightarrow> int \<Rightarrow> (bybit_params \<Rightarrow> response) \<Rightarrow> bybit_state
   \<Rightarrow> bybit_state flow" where
  "bybit_body fromiso symb start_ts srv st =
     (let limit = 200;
          params = \<lparr>by_category = ''linear'', by_symbol = symb, by_startTime = start_ts,
                    by_endTime = by_cur_end st, by_limit = limit\<rparr>;
          st1 = st\<lparr>by_sent := by_sent st @ [params]\<rparr>
      in case srv params of
           Failed \<Rightarrow> Break st1
         | Body j \<Rightarrow>
             let lst = bybit_lst j in
             if \<not> truthy lst then Break st1
             else (case py_iter lst of
                     Inl e \<Rightarrow> Break st1
                   | Inr items \<Rightarrow>
                       (case bybit_items fromiso symb items (by_results st1) of
                          Raised e rs \<Rightarrow> Break (st1\<lparr>by_results := rs\<rparr>)
                        | Done rs \<Rightarrow>
                            if length items < limit then Break (st1\<lparr>by_results := rs\<rparr>)
                            else (case bybit_last_time items of
                                    Inl e \<Rightarrow> Break (st1\<lparr>by_results := rs\<rparr>)
                                  | Inr last_time \<Rightarrow>
                                      Next (st1\<lparr>by_results := rs,
                                                by_cur_end := last_time - 1\<rparr>)))))"

fun bybit_run ::
  "(json \<Rightarrow> int option) \<Rightarrow> string \<Rightarrow> int \<Rightarrow> bybit_params script \<Rightarrow> bybit_state
   \<Rightarrow> bybit_state flow" where
  "bybit_run fromiso symb start_ts [] st = Next st"
| "bybit_run fromiso symb start_ts (srv # rest) st =
     (case bybit_body fromiso symb start_ts srv st of
        Break st' \<Rightarrow> Break st'
      | Next st' \<Rightarrow> bybit_run fromiso symb start_ts rest st')"

definition bybit_init :: "int \<Rightarrow> bybit_state" where
  "bybit_init end_ts = \<lparr>by_results = [], by_cur_end = end_ts, by_sent = []\<rparr>"

definition fetch_bybit_funding_v5 ::
  "(json \<Rightarrow> int option) \<Rightarrow> bybit_params script \<Rightarrow> string \<Rightarrow> int \<Rightarrow> int
   \<Rightarrow> funding_record list option" where
  "fetch_bybit_funding_v5 fromiso net symb start_ts end_ts =
     (case bybit_run fromiso symb start_ts net (bybit_init end_ts) of
        Break st \<Rightarrow> Some (by_results st)
      | Next st \<Rightarrow> None)"

definition bybit_requests ::
  "(json \<Rightarrow> int option) \<Rightarrow> bybit_params script \<Rightarrow> string \<Rightarrow> int \<Rightarrow> int
   \<Rightarrow> bybit_params list option" where
  "bybit_requests fromiso net symb start_ts end_ts =
     (case bybit_run fromiso symb start_ts net (bybit_init end_ts) of
        Break st \<Rightarrow> Some (by_sent st)
      | Next st \<Rightarrow> None)"

text \<open>
  What \<^verbatim>\<open>main\<close> adds to \<^verbatim>\<open>all_rows\<close> for one symbol:
  \<^verbatim>\<open>if rows: all_rows.extend(rows[::-1])\<close>.
\<close>

definition bybit_main_rows :: "funding_record list \<Rightarrow> funding_record list" where
  "bybit_main_rows rows = (if rows \<noteq> [] then rev rows else [])"

section \<open>\<^verbatim>\<open>fetch_hyper_funding_for_symbol\<close>\<close>

definition is_ascii_letter :: "char \<Rightarrow> bool" where
  "is_ascii_letter c =
     (let n = (of_char c :: nat) in (65 \<le> n \<and> n \<le> 90) \<or> (97 \<le> n \<and> n \<le> 122))"

text \<open>\<^verbatim>\<open>m = re.match(r"^([A-Za-z]+)", symbol); return m.group(1) if m else symbol\<close>\<close>

definition extract_coin_from_symbol :: "string \<Rightarrow> string" where
  "extract_coin_from_symbol symb =
     (let m = takeWhile is_ascii_letter symb in if m \<noteq> [] then m else symb)"

record hyper_post =
  hl_type :: string
  hl_coin :: string
  hl_startTime :: int
  hl_endTime :: int

record hyper_state =
  hl_results :: "funding_record list"
  hl_cur_start :: int
  hl_sent :: "hyper_post list"

text \<open>\<^verbatim>\<open>len(j)\<close>, evaluated by the \<^verbatim>\<open>print\<close> before the emptiness test.\<close>

fun py_len :: "json \<Rightarrow> py_error + nat" where
  "py_len (JArr xs) = Inr (length xs)"
| "py_len (JStr s) = Inr (length s)"
| "py_len (JObj kvs) = Inr (length kvs)"
| "py_len _ = Inl TypeError"

text \<open>
  The row of one Hyperliquid entry, as the loop in the fetcher builds it: an entry whose
  time is not an integer is skipped, with no second parser.
\<close>

definition hyper_ft :: "json \<Rightarrow> py_error + json" where
  "hyper_ft item = get_first item [''time'', ''timestamp'', ''t'']"

definition hyper_fr :: "json \<Rightarrow> py_error + json" where
  "hyper_fr item = get_first item [''fundingRate'', ''funding_rate'', ''rate'', ''funding'']"

definition hyper_row :: "string \<Rightarrow> json \<Rightarrow> py_error + funding_record option" where
  "hyper_row symb item =
     (case hyper_ft item of
        Inl e \<Rightarrow> Inl e
      | Inr ft \<Rightarrow>
     (case hyper_fr item of
        Inl e \<Rightarrow> Inl e
      | Inr fr \<Rightarrow>
          if ft = JNull then Inr None
          else
            (case int_ms ft of
               Inl e \<Rightarrow> Inr None
             | Inr ft_i \<Rightarrow>
                 (case iso_from_ms ft_i of
                    Inl e \<Rightarrow> Inl e
                  | Inr ts \<Rightarrow>
                      Inr (Some \<lparr>exchange = ''hyperliquid'', symbol = symb,
                                 funding_time_ms = ft_i, funding_time_iso = ts,
                                 funding_rate = fr\<rparr>)))))"

fun hyper_items :: "string \<Rightarrow> json list \<Rightarrow> funding_record list \<Rightarrow> funding_record list exec" where
  "hyper_items symb [] results = Done results"
| "hyper_items symb (item # items) results =
     (case hyper_row symb item of
        Inl e \<Rightarrow> Raised e results
      | Inr None \<Rightarrow> hyper_items symb items results
      | Inr (Some row) \<Rightarrow> hyper_items symb items (results @ [row]))"

text \<open>\<^verbatim>\<open>int(j[-1].get("time") or j[-1].get("timestamp") or j[-1].get("t"))\<close>\<close>

definition hyper_last_time :: "json list \<Rightarrow> py_error + int" where
  "hyper_last_time j = (case hyper_ft (last j) of Inl e \<Rightarrow> Inl e | Inr v \<Rightarrow> py_int v)"

definition window_ms :: int where
  "window_ms = 30 * 24 * 3600 * 1000"

text \<open>
  One round of \<^verbatim>\<open>while cur_start <= end_ms\<close>, entered with the condition true. A body
  that is not a non-empty list moves \<^verbatim>\<open>cur_start\<close> past \<^verbatim>\<open>cur_end\<close> and goes round
  again (\<^verbatim>\<open>continue\<close>).
\<close>

definition hyper_body ::
  "string \<Rightarrow> string \<Rightarrow> int \<Rightarrow> (hyper_post \<Rightarrow> response) \<Rightarrow> hyper_state \<Rightarrow> hyper_state flow" where
  "hyper_body symb coin end_ms srv st =
     (let cur_end = min end_ms (hl_cur_start st + window_ms - 1);
          body = \<lparr>hl_type = ''fundingHistory'', hl_coin = coin,
                  hl_startTime = hl_cur_start st, hl_endTime = cur_end\<rparr>;
          st1 = st\<lparr>hl_sent := hl_sent st @ [body]\<rparr>
      in case srv body of
           Failed \<Rightarrow> Break st1
         | Body j \<Rightarrow>
             (case py_len j of
                Inl e \<Rightarrow> Break st1
              | Inr n \<Rightarrow>
                  (case j of
                     JArr items \<Rightarrow>
                       if n = 0 then Next (st1\<lparr>hl_cur_start := cur_end + 1\<rparr>)
                       else (case hyper_items symb items (hl_results st1) of
                               Raised e rs \<Rightarrow> Break (st1\<lparr>hl_results := rs\<rparr>)
                             | Done rs \<Rightarrow>
                                 (case hyper_last_time items of
                                    Inl e \<Rightarrow> Break (st1\<lparr>hl_results := rs\<rparr>)
                                  | Inr last_time \<Rightarrow>
                                      Next (st1\<lparr>hl_results := rs,
                                                hl_cur_start := last_time + 1\<rparr>)))
                   | _ \<Rightarrow> Next (st1\<lparr>hl_cur_start := cur_end + 1\<rparr>))))"

fun hyper_run ::
  "string \<Rightarrow> string \<Rightarrow> int \<Rightarrow> hyper_post script \<Rightarrow> hyper_state \<Rightarrow> hyper_state flow" where
  "hyper_run symb coin end_ms [] st =
     (if hl_cur_start st \<le> end_ms then Next st else Break st)"
| "hyper_run symb coin end_ms (srv # rest) st =
     (if hl_cur_start st \<le> end_ms then
        (case hyper_body symb coin end_ms srv st of
           Break st' \<Rightarrow> Break st'
         | Next st' \<Rightarrow> hyper_run symb coin end_ms rest st')
      else Break st)"

text \<open>
  The last statement: a dict keyed by \<^verbatim>\<open>(funding_time_ms, funding_rate)\<close>, its values
  sorted by time. A list or a dict as rate cannot be hashed (TypeError, outside every
  \<^verbatim>\<open>try\<close>). Keys are compared with Python's \<^verbatim>\<open>==\<close>, under which \<^verbatim>\<open>True\<close> is \<^verbatim>\<open>1\<close>.
\<close>

fun hashable :: "json \<Rightarrow> bool" where
  "hashable (JArr xs) = False"
| "hashable (JObj kvs) = False"
| "hashable _ = True"

fun num_val :: "json \<Rightarrow> int option" where
  "num_val (JBool b) = Some (if b then 1 else 0)"
| "num_val (JInt n) = Some n"
| "num_val _ = None"

definition py_eq :: "json \<Rightarrow> json \<Rightarrow> bool" where
  "py_eq a b =
     (case (num_val a, num_val b) of
        (Some x, Some y) \<Rightarrow> x = y
      | (None, None) \<Rightarrow> a = b
      | _ \<Rightarrow> False)"

definition same_key :: "funding_record \<Rightarrow> funding_record \<Rightarrow> bool" where
  "same_key r r' =
     (funding_time_ms r = funding_time_ms r' \<and> py_eq (funding_rate r) (funding_rate r'))"

text \<open>
  \<^verbatim>\<open>d[key(r)] = r\<close> on the values of the dict, kept in insertion order: a key already
  present keeps its place and takes the new value.
\<close>

fun dict_put :: "funding_record list \<Rightarrow> funding_record \<Rightarrow> funding_record list" where
  "dict_put [] r = [r]"
| "dict_put (v # vs) r = (if same_key v r then r # vs else v # dict_put vs r)"

definition dedup_sorted :: "funding_record list \<Rightarrow> py_error + funding_record list" where
  "dedup_sorted results =
     (if list_all (\<lambda>r. hashable (funding_rate r)) results
      then Inr (sort_key funding_time_ms (foldl dict_put [] results))
      else Inl TypeError)"

definition hyper_init :: "int \<Rightarrow> hyper_state" where
  "hyper_init start_ms = \<lparr>hl_results = [], hl_cur_start = start_ms, hl_sent = []\<rparr>"

text \<open>
  \<open>None\<close>: the script ran out; \<open>Some (Inl e)\<close>: the call raised \<open>e\<close>;
  \<open>Some (Inr rows)\<close>: it returned \<open>rows\<close>.
\<close>

definition fetch_hyper_funding_for_symbol ::
  "hyper_post script \<Rightarrow> string \<Rightarrow> int \<Rightarrow> int \<Rightarrow> (py_error + funding_record list) option" where
  "fetch_hyper_funding_for_symbol net symb start_ms end_ms =
     (case hyper_run symb (extract_coin_from_symbol symb) end_ms net (hyper_init start_ms) of
        Break st \<Rightarrow> Some (dedup_sorted (hl_results st))
      | Next st \<Rightarrow> None)"

definition hyper_requests ::
  "hyper_post script \<Rightarrow> string \<Rightarrow> int \<Rightarrow> int \<Rightarrow> hyper_post list option" where
  "hyper_requests net symb start_ms end_ms =
     (case hyper_run symb (extract_coin_from_symbol symb) end_ms net (hyper_init start_ms) of
        Break st \<Rightarrow> Some (hl_sent st)
      | Next st \<Rightarrow> None)"

section \<open>\<^verbatim>\<open>main\<close>: accumulation and grouping\<close>

text \<open>
  What \<^verbatim>\<open>main\<close> of the Binance and Hyperliquid scripts adds to \<^verbatim>\<open>all_rows\<close> for one
  symbol: \<^verbatim>\<open>if rows: all_rows.extend(rows)\<close> (for Bybit see \<open>bybit_main_rows\<close>).
\<close>

definition main_rows :: "funding_record list \<Rightarrow> funding_record list" where
  "main_rows rows = (if rows \<noteq> [] then rows else [])"

text \<open>
  \<^verbatim>\<open>all_rows\<close> after the loop over the symbols, \<open>added symb\<close> being what the fetch of
  \<open>symb\<close> adds; the symbols come from \<^verbatim>\<open>sorted(list(dict.fromkeys(syms)))\<close>.
\<close>

definition main_all_rows :: "(string \<Rightarrow> funding_record list) \<Rightarrow> string list \<Rightarrow> funding_record list" where
  "main_all_rows added syms = concat (map added syms)"

text \<open>
  \<^verbatim>\<open>for r in all_rows: by_sym.setdefault(r.get('symbol'), []).append(r)\<close>: the group of
  a symbol, in the order of \<^verbatim>\<open>all_rows\<close>; each group is written to its own file.
\<close>

definition by_sym :: "funding_record list \<Rightarrow> string \<Rightarrow> funding_record list" where
  "by_sym all_rows symb = filter (\<lambda>r. symbol r = symb) all_rows"

text \<open>
  The combined script keeps \<^verbatim>\<open>binance_rows\<close> and \<^verbatim>\<open>bybit_rows\<close> apart, joins them
  (\<^verbatim>\<open>bybit_rows\<close> left out under \<^verbatim>\<open>--only-binance\<close>) and groups by exchange and symbol:
  \<^verbatim>\<open>grouped[(exch, sym)].append(r)\<close>.
\<close>

definition grouped :: "funding_record list \<Rightarrow> string \<times> string \<Rightarrow> funding_record list" where
  "grouped all_rows key = filter (\<lambda>r. (exchange r, symbol r) = key) all_rows"

section \<open>Notions the claims are stated with\<close>

text \<open>
  \<^verbatim>\<open>not isinstance(x, list) or len(x) == 0\<close>: a body that holds no list of entries.
\<close>

fun no_entries :: "json \<Rightarrow> bool" where
  "no_entries (JArr data) = (length data = 0)"
| "no_entries _ = True"

text \<open>
  The normalisation of a timestamp in the words of the specification: a value under
  \<open>10^12\<close> is in seconds and is multiplied by 1000.
\<close>

definition normalize_ms :: "int \<Rightarrow> int" where
  "normalize_ms t = (if t < 10 ^ 12 then t * 1000 else t)"

text \<open>
  The time of an entry whose raw timestamp is \<open>ft\<close>: the normalised integer when
  \<open>ft\<close> reads as one, else what the second parser \<open>fromiso\<close> makes of it; \<open>None\<close> when
  there is no timestamp or no parser accepts it.
\<close>

definition entry_time :: "(json \<Rightarrow> int option) \<Rightarrow> json \<Rightarrow> int option" where
  "entry_time fromiso ft =
     (if ft = JNull then None
      else case py_int ft of Inr t \<Rightarrow> Some (normalize_ms t) | Inl e \<Rightarrow> fromiso ft)"

definition bybit_entry_time :: "(json \<Rightarrow> int option) \<Rightarrow> json \<Rightarrow> int option" where
  "bybit_entry_time fromiso item =
     (case bybit_ft item of Inr ft \<Rightarrow> entry_time fromiso ft | Inl e \<Rightarrow> None)"

definition hyper_entry_time :: "json \<Rightarrow> int option" where
  "hyper_entry_time item =
     (case hyper_ft item of Inr ft \<Rightarrow> entry_time (\<lambda>ft. None) ft | Inl e \<Rightarrow> None)"

text \<open>
  An entry leaves the loop over the entries of a page by an exception when it is no dict
  (it has no \<^verbatim>\<open>get\<close>) or when its time is one that \<^verbatim>\<open>iso_from_ms\<close> does not render;
  for Binance, also when its \<^verbatim>\<open>fundingTime\<close> does not read as an integer.
\<close>

fun is_dict :: "json \<Rightarrow> bool" where
  "is_dict (JObj kvs) = True"
| "is_dict _ = False"

definition renders :: "int \<Rightarrow> bool" where
  "renders t = (case iso_from_ms t of Inr ts \<Rightarrow> True | Inl e \<Rightarrow> False)"

definition entry_raises :: "int option \<Rightarrow> json \<Rightarrow> bool" where
  "entry_raises t item =
     (if is_dict item then (case t of Some u \<Rightarrow> \<not> renders u | None \<Rightarrow> False) else True)"

definition binance_raises :: "json \<Rightarrow> bool" where
  "binance_raises item =
     (case binance_time item of Inr t \<Rightarrow> \<not> renders t | Inl e \<Rightarrow> True)"

text \<open>The state a loop body or a loop ends in, whichever way it ends.\<close>

primrec flow_state :: "'s flow \<Rightarrow> 's" where
  "flow_state (Next s) = s"
| "flow_state (Break s) = s"

text \<open>
  The interval \<open>[start_ms, end_ms]\<close> cut into fixed windows of 30 days, each as the
  request body that asks for it: the segmentation in the words of the specification.
\<close>

function fixed_windows :: "string \<Rightarrow> int \<Rightarrow> int \<Rightarrow> hyper_post list" where
  "fixed_windows coin start_ms end_ms =
     (if start_ms \<le> end_ms
      then \<lparr>hl_type = ''fundingHistory'', hl_coin = coin, hl_startTime = start_ms,
            hl_endTime = min end_ms (start_ms + window_ms - 1)\<rparr>
           # fixed_windows coin (start_ms + window_ms) end_ms
      else [])"
  by pat_completeness auto
termination
  by (relation "measure (\<lambda>(coin, start_ms, end_ms). nat (end_ms + 1 - start_ms))")
     (auto simp: window_ms_def)

text \<open>
  The key of a row in the closing dict of the Hyperliquid fetcher, with \<^verbatim>\<open>True\<close> and
  \<^verbatim>\<open>False\<close> written as the integers they are equal to.
\<close>

fun canon_rate :: "json \<Rightarrow> json" where
  "canon_rate (JBool b) = JInt (if b then 1 else 0)"
| "canon_rate v = v"

definition row_key :: "funding_record \<Rightarrow> int \<times> json" where
  "row_key r = (funding_time_ms r, canon_rate (funding_rate r))"

primrec exec_state :: "'s exec \<Rightarrow> 's" where
  "exec_state (Done s) = s"
| "exec_state (Raised e s) = s"

text \<open>
  The integer an entry carries as its time, before any normalisation, as each fetcher
  reads it.
\<close>

definition binance_raw :: "json \<Rightarrow> int option" where
  "binance_raw item = (case binance_time item of Inr t \<Rightarrow> Some t | Inl e \<Rightarrow> None)"

definition raw_int :: "py_error + json \<Rightarrow> int option" where
  "raw_int probe =
     (case probe of
        Inr ft \<Rightarrow>
          if ft = JNull then None
          else (case py_int ft of Inr t \<Rightarrow> Some t | Inl e \<Rightarrow> None)
      | Inl e \<Rightarrow> None)"

definition bybit_raw :: "json \<Rightarrow> int option" where
  "bybit_raw item = raw_int (bybit_ft item)"

definition hyper_raw :: "json \<Rightarrow> int option" where
  "hyper_raw item = raw_int (hyper_ft item)"

text \<open>
  A valid page for a request with window \<open>[lo, hi]\<close>: every entry carries an integer
  time, the times are strictly monotone in the order \<open>ord\<close> of the endpoint, and all
  lie within the window.
\<close>

definition page_ok :: "(int \<Rightarrow> int \<Rightarrow> bool) \<Rightarrow> int \<Rightarrow> int \<Rightarrow> int option list \<Rightarrow> bool" where
  "page_ok ord lo hi raws =
     (case those raws of
        None \<Rightarrow> False
      | Some ts \<Rightarrow> sorted_wrt ord ts \<and> list_all (\<lambda>t. lo \<le> t \<and> t \<le> hi) ts)"

definition binance_page_ok :: "binance_params \<Rightarrow> json list \<Rightarrow> bool" where
  "binance_page_ok q data = page_ok (<) (bn_startTime q) (bn_endTime q) (map binance_raw data)"

definition bybit_page_ok :: "bybit_params \<Rightarrow> json list \<Rightarrow> bool" where
  "bybit_page_ok q data = page_ok (>) (by_startTime q) (by_endTime q) (map bybit_raw data)"

definition hyper_page_ok :: "hyper_post \<Rightarrow> json list \<Rightarrow> bool" where
  "hyper_page_ok q data = page_ok (<) (hl_startTime q) (hl_endTime q) (map hyper_raw data)"

text \<open>
  An answer is valid for the request it answers when the list of entries it holds, if it
  holds one, is a valid page for the window of the request.
\<close>

definition binance_answer_ok :: "(binance_params \<Rightarrow> response) \<Rightarrow> binance_params \<Rightarrow> bool" where
  "binance_answer_ok srv q =
     (case srv q of Body (JArr data) \<Rightarrow> binance_page_ok q data | _ \<Rightarrow> True)"

definition bybit_answer_ok :: "(bybit_params \<Rightarrow> response) \<Rightarrow> bybit_params \<Rightarrow> bool" where
  "bybit_answer_ok srv q =
     (case srv q of
        Body j \<Rightarrow> (case bybit_lst j of JArr data \<Rightarrow> bybit_page_ok q data | _ \<Rightarrow> True)
      | Failed \<Rightarrow> True)"

definition hyper_answer_ok :: "(hyper_post \<Rightarrow> response) \<Rightarrow> hyper_post \<Rightarrow> bool" where
  "hyper_answer_ok srv q =
     (case srv q of Body (JArr data) \<Rightarrow> hyper_page_ok q data | _ \<Rightarrow> True)"

text \<open>Loop invariants: the rows in hand are strictly ordered and lie behind the cursor.\<close>

definition binance_inv :: "binance_state \<Rightarrow> bool" where
  "binance_inv st \<longleftrightarrow>
     sorted_wrt (<) (map funding_time_ms (bn_results st))
     \<and> (\<forall>r \<in> set (bn_results st). funding_time_ms r < bn_cur_start st)"

definition bybit_inv :: "bybit_state \<Rightarrow> bool" where
  "bybit_inv st \<longleftrightarrow>
     sorted_wrt (>) (map funding_time_ms (by_results st))
     \<and> (\<forall>r \<in> set (by_results st). by_cur_end st < funding_time_ms r)"

definition hyper_inv :: "hyper_state \<Rightarrow> bool" where
  "hyper_inv st \<longleftrightarrow>
     sorted_wrt (<) (map funding_time_ms (hl_results st))
     \<and> (\<forall>r \<in> set (hl_results st). funding_time_ms r < hl_cur_start st)
     \<and> 10 ^ 12 \<le> hl_cur_start st"

text \<open>A row that carries the name of its exchange and the symbol it was fetched for.\<close>

definition tagged :: "string \<Rightarrow> string \<Rightarrow> funding_record \<Rightarrow> bool" where
  "tagged ex symb r \<longleftrightarrow> exchange r = ex \<and> symbol r = symb"

section \<open>Example data\<close>

text \<open>An entry of the Binance endpoint and the row the fetcher builds from it.\<close>

definition binance_entry :: "int \<Rightarrow> json" where
  "binance_entry t =
     JObj [(''symbol'', JStr ''BTCUSDT''), (''fundingTime'', JInt t),
           (''fundingRate'', JStr ''0.00010000'')]"

definition binance_entry_row :: "int \<Rightarrow> funding_record" where
  "binance_entry_row t =
     \<lparr>exchange = ''binance'', symbol = ''BTCUSDT'', funding_time_ms = t,
      funding_time_iso = isoformat t @ ''Z'', funding_rate = JStr ''0.00010000''\<rparr>"

text \<open>A page of \<open>n\<close> entries, one every eight hours from \<open>t0\<close>.\<close>

definition every_8h :: "int \<Rightarrow> nat \<Rightarrow> int list" where
  "every_8h t0 n = map (\<lambda>i. t0 + 28800000 * int i) [0..<n]"

text \<open>Entries of the Bybit and Hyperliquid endpoints, with their rows.\<close>

definition every_8h_down :: "int \<Rightarrow> nat \<Rightarrow> int list" where
  "every_8h_down t0 n = map (\<lambda>i. t0 - 28800000 * int i) [0..<n]"

definition bybit_entry :: "int \<Rightarrow> json" where
  "bybit_entry t =
     JObj [(''symbol'', JStr ''BTCUSDT''), (''fundingRate'', JStr ''0.0001''),
           (''fundingRateTimestamp'', JInt t)]"

definition bybit_entry_row :: "int \<Rightarrow> funding_record" where
  "bybit_entry_row t =
     \<lparr>exchange = ''bybit'', symbol = ''BTCUSDT'', funding_time_ms = t,
      funding_time_iso = isoformat t @ ''Z'', funding_rate = JStr ''0.0001''\<rparr>"

definition bybit_reply :: "json list \<Rightarrow> json" where
  "bybit_reply lst =
     JObj [(''retCode'', JInt 0), (''retMsg'', JStr ''OK''),
           (''result'', JObj [(''category'', JStr ''linear''), (''list'', JArr lst)])]"

definition hyper_entry :: "int \<Rightarrow> string \<Rightarrow> json" where
  "hyper_entry t r =
     JObj [(''coin'', JStr ''ETH''), (''fundingRate'', JStr r), (''premium'', JStr ''0.0003''),
           (''time'', JInt t)]"

definition hyper_entry_row :: "int \<Rightarrow> string \<Rightarrow> funding_record" where
  "hyper_entry_row t r =
     \<lparr>exchange = ''hyperliquid'', symbol = ''ETH-USDC'', funding_time_ms = t,
      funding_time_iso = isoformat t @ ''Z'', funding_rate = JStr r\<rparr>"

text \<open>
  A second parser that knows one string, and pages whose entries carry their time in
  seconds, in milliseconds, as an ISO string, as no time at all, or not at all.
\<close>

definition iso_table :: "json \<Rightarrow> int option" where
  "iso_table ft = (if ft = JStr ''2023-11-14T22:13:20Z'' then Some 1700000000000 else None)"

definition bybit_mixed_page :: "json list" where
  "bybit_mixed_page =
     [JObj [(''fundingRate'', JStr ''0.0001''), (''fundingRateTimestamp'', JInt 1700000000)],
      JObj [(''fundingRate'', JStr ''0.0001''),
            (''fundingRateTimestamp'', JStr ''1700000000000'')],
      JObj [(''fundingRate'', JStr ''0.0001''),
            (''fundingRateTimestamp'', JStr ''2023-11-14T22:13:20Z'')],
      JObj [(''fundingRate'', JStr ''0.0001''), (''fundingRateTimestamp'', JStr ''yesterday'')],
      JObj [(''fundingRate'', JStr ''0.0001'')]]"

definition hyper_iso_entry :: json where
  "hyper_iso_entry =
     JObj [(''coin'', JStr ''ETH''), (''fundingRate'', JStr ''0.0000125''),
           (''premium'', JStr ''0.0003''), (''time'', JStr ''2023-11-14T22:13:20Z'')]"

definition hyper_mixed_page :: "json list" where
  "hyper_mixed_page =
     [hyper_entry 1700000000 ''0.0000125'', hyper_entry 1700003600000 ''0.0000125'',
      hyper_iso_entry,
      JObj [(''coin'', JStr ''ETH''), (''fundingRate'', JStr ''0.0000125'')]]"

definition row_at :: "string \<Rightarrow> string \<Rightarrow> int \<Rightarrow> string \<Rightarrow> string \<Rightarrow> funding_record" where
  "row_at ex symb t ts r =
     \<lparr>exchange = ex, symbol = symb, funding_time_ms = t, funding_time_iso = ts,
      funding_rate = JStr r\<rparr>"

text \<open>An entry with no time field, and one whose time no parser reads.\<close>

definition entry_without_time :: json where
  "entry_without_time = JObj [(''symbol'', JStr ''BTCUSDT''), (''fundingRate'', JStr ''0.0001'')]"

definition bybit_word_entry :: json where
  "bybit_word_entry =
     JObj [(''symbol'', JStr ''BTCUSDT''), (''fundingRate'', JStr ''0.0001''),
           (''fundingRateTimestamp'', JStr ''yesterday'')]"


text \<open>
  Pages that are left by an exception: a time in seconds that lies beyond the year 9999
  once multiplied, an entry that is no dict, an entry without \<^verbatim>\<open>fundingTime\<close>.
\<close>

definition bybit_raising_page :: "json list" where
  "bybit_raising_page =
     bybit_mixed_page @ [bybit_entry 999999999999, bybit_entry 1734307200000]"

definition hyper_raising_page :: "json list" where
  "hyper_raising_page =
     hyper_mixed_page @ [JInt 1700007200000, hyper_entry 1734307200000 ''0.0000125'']"

definition binance_raising_page :: "json list" where
  "binance_raising_page =
     [binance_entry 1700000000, binance_entry 1700000000000, entry_without_time,
      binance_entry 1734307200000]"

text \<open>The state of the Hyperliquid loop after a first answer of two entries.\<close>

definition hyper_after_page :: hyper_state where
  "hyper_after_page =
     \<lparr>hl_results = [hyper_entry_row 1734307200000 ''0.0000100'',
                     hyper_entry_row 1734310800000 ''0.0000125''],
      hl_cur_start = 1734310800001,
      hl_sent = [\<lparr>hl_type = ''fundingHistory'', hl_coin = ''ETH'',
                  hl_startTime = 1734307200000, hl_endTime = 1736899199999\<rparr>]\<rparr>"

text \<open>Short pages in the order of their endpoint, all within the window asked for.\<close>

definition binance_short_page :: "json list" where
  "binance_short_page =
     [binance_entry 1734307200000, binance_entry 1734336000000, binance_entry 1734364800000]"

definition bybit_short_page :: "json list" where
  "bybit_short_page =
     [bybit_entry 1734364800000, bybit_entry 1734336000000, bybit_entry 1734307200000]"

definition hyper_short_page :: "json list" where
  "hyper_short_page =
     [hyper_entry 1734307200000 ''0.0000100'', hyper_entry 1734310800000 ''0.0000125'']"

section \<open>Properties\<close>

subsection \<open>Auxiliary facts\<close>

lemma strict_sorted_le_last:
  "sorted_wrt (<) (map f xs) \<Longrightarrow> x \<in> set xs \<Longrightarrow> f x \<le> (f (last xs) :: int)"
  by (induction xs) (auto simp: less_imp_le)

lemma binance_items_rows:
  "map (binance_row symb) items = map Inr rows \<Longrightarrow>
   binance_items symb items acc = Done (acc @ rows)"
proof (induction items arbitrary: rows acc)
  case Nil
  then show ?case by simp
next
  case (Cons item items)
  then obtain r rs where rows: "rows = r # rs" by (cases rows) auto
  with Cons.prems have r: "binance_row symb item = Inr r"
    and rs: "map (binance_row symb) items = map Inr rs" by auto
  show ?case using Cons.IH [OF rs, of "acc @ [r]"] r rows by simp
qed

lemma binance_row_time:
  "binance_row symb item = Inr r \<Longrightarrow> binance_time item = Inr (funding_time_ms r)"
  by (auto simp: binance_row_def split: sum.splits)

lemma binance_last_time_rows:
  assumes "map (binance_row symb) items = map Inr rows" "items \<noteq> []"
  shows "binance_last_time items = Inr (funding_time_ms (last rows))"
proof -
  from assms have ne: "rows \<noteq> []" by auto
  have "length items = length rows" using assms(1) by (metis length_map)
  have "map (binance_row symb) items ! (length items - 1) = map Inr rows ! (length items - 1)"
    using assms(1) by simp
  then have "binance_row symb (last items) = Inr (last rows)"
    using assms(2) ne \<open>length items = length rows\<close>
    by (simp add: last_conv_nth)
  then show ?thesis unfolding binance_last_time_def by (rule binance_row_time)
qed

lemma binance_row_entry:
  "MIN_MS \<le> t \<Longrightarrow> t \<le> MAX_MS \<Longrightarrow>
   binance_row ''BTCUSDT'' (binance_entry t) = Inr (binance_entry_row t)"
  by (simp add: binance_row_def binance_time_def binance_entry_def binance_entry_row_def
      iso_from_ms_def)

lemma binance_rows_entries:
  "\<forall>t \<in> set ts. MIN_MS \<le> t \<and> t \<le> MAX_MS \<Longrightarrow>
   map (binance_row ''BTCUSDT'') (map binance_entry ts) = map Inr (map binance_entry_row ts)"
  by (simp add: binance_row_entry)


lemma every_8h_bounds: "t \<in> set (every_8h t0 n) \<Longrightarrow> t0 \<le> t \<and> t < t0 + 28800000 * int n"
  by (auto simp: every_8h_def)

lemma every_8h_last: "0 < n \<Longrightarrow> last (every_8h t0 n) = t0 + 28800000 * int (n - 1)"
  by (simp add: every_8h_def last_map)

lemma binance_run_append:
  "binance_run symb end_ms (pre @ post) st =
     (case binance_run symb end_ms pre st of
        Break s \<Rightarrow> Break s
      | Next s \<Rightarrow> binance_run symb end_ms post s)"
  by (induction pre arbitrary: st) (auto split: flow.splits)

lemma bybit_run_append:
  "bybit_run fromiso symb start_ts (pre @ post) st =
     (case bybit_run fromiso symb start_ts pre st of
        Break s \<Rightarrow> Break s
      | Next s \<Rightarrow> bybit_run fromiso symb start_ts post s)"
  by (induction pre arbitrary: st) (auto split: flow.splits)

lemma hyper_run_Next_guard:
  "hyper_run symb coin end_ms net st = Next s \<Longrightarrow> hl_cur_start s \<le> end_ms"
  by (induction net arbitrary: st) (auto split: flow.splits if_splits)

lemma hyper_run_append:
  "hyper_run symb coin end_ms (pre @ post) st =
     (case hyper_run symb coin end_ms pre st of
        Break s \<Rightarrow> Break s
      | Next s \<Rightarrow> hyper_run symb coin end_ms post s)"
proof (induction pre arbitrary: st)
  case Nil
  show ?case by (cases post) auto
next
  case (Cons srv pre)
  then show ?case by (auto split: flow.splits)
qed

lemma binance_body_page:
  assumes "map (binance_row symb) page = map Inr rows" and "page \<noteq> []"
    and "srv \<lparr>bn_symbol = symb, bn_startTime = bn_cur_start st, bn_endTime = end_ms,
               bn_limit = 1000\<rparr> = Body (JArr page)"
  shows "binance_body symb end_ms srv st =
     (if length page < 1000
      then Break (st\<lparr>bn_results := bn_results st @ rows,
                     bn_sent := bn_sent st @ [\<lparr>bn_symbol = symb, bn_startTime = bn_cur_start st,
                                                bn_endTime = end_ms, bn_limit = 1000\<rparr>]\<rparr>)
      else Next (st\<lparr>bn_results := bn_results st @ rows,
                    bn_cur_start := funding_time_ms (last rows) + 1,
                    bn_sent := bn_sent st @ [\<lparr>bn_symbol = symb, bn_startTime = bn_cur_start st,
                                               bn_endTime = end_ms, bn_limit = 1000\<rparr>]\<rparr>))"
  using assms(2,3) binance_items_rows [OF assms(1), of "bn_results st"]
    binance_last_time_rows [OF assms(1,2)]
  by (simp add: binance_body_def)

lemma bybit_items_rows:
  "map (bybit_row fromiso symb) items = map Inr ros \<Longrightarrow>
   bybit_items fromiso symb items acc = Done (acc @ List.map_filter id ros)"
proof (induction items arbitrary: ros acc)
  case Nil
  then show ?case by (simp add: map_filter_simps)
next
  case (Cons item items)
  then obtain ro ros' where ros: "ros = ro # ros'" by (cases ros) auto
  with Cons.prems have r: "bybit_row fromiso symb item = Inr ro"
    and rs: "map (bybit_row fromiso symb) items = map Inr ros'" by auto
  show ?case
    using Cons.IH [OF rs] r ros by (cases ro) (simp_all add: map_filter_simps)
qed

lemma hyper_items_rows:
  "map (hyper_row symb) items = map Inr ros \<Longrightarrow>
   hyper_items symb items acc = Done (acc @ List.map_filter id ros)"
proof (induction items arbitrary: ros acc)
  case Nil
  then show ?case by (simp add: map_filter_simps)
next
  case (Cons item items)
  then obtain ro ros' where ros: "ros = ro # ros'" by (cases ros) auto
  with Cons.prems have r: "hyper_row symb item = Inr ro"
    and rs: "map (hyper_row symb) items = map Inr ros'" by auto
  show ?case
    using Cons.IH [OF rs] r ros by (cases ro) (simp_all add: map_filter_simps)
qed

lemma bybit_body_page:
  assumes "map (bybit_row fromiso symb) page = map Inr ros" and "page \<noteq> []"
    and "srv \<lparr>by_category = ''linear'', by_symbol = symb, by_startTime = start_ts,
               by_endTime = by_cur_end st, by_limit = 200\<rparr> = Body j"
    and "bybit_lst j = JArr page"
    and "bybit_last_time page = Inr c"
  shows "bybit_body fromiso symb start_ts srv st =
     (if length page < 200
      then Break (st\<lparr>by_results := by_results st @ List.map_filter id ros,
                     by_sent := by_sent st @ [\<lparr>by_category = ''linear'', by_symbol = symb,
                        by_startTime = start_ts, by_endTime = by_cur_end st, by_limit = 200\<rparr>]\<rparr>)
      else Next (st\<lparr>by_results := by_results st @ List.map_filter id ros,
                    by_cur_end := c - 1,
                    by_sent := by_sent st @ [\<lparr>by_category = ''linear'', by_symbol = symb,
                        by_startTime = start_ts, by_endTime = by_cur_end st, by_limit = 200\<rparr>]\<rparr>))"
  using assms(2-5) bybit_items_rows [OF assms(1), of "by_results st"]
  by (simp add: bybit_body_def)

lemma hyper_body_page:
  assumes "map (hyper_row symb) page = map Inr ros" and "page \<noteq> []"
    and "srv \<lparr>hl_type = ''fundingHistory'', hl_coin = coin, hl_startTime = hl_cur_start st,
               hl_endTime = min end_ms (hl_cur_start st + window_ms - 1)\<rparr> = Body (JArr page)"
    and "hyper_last_time page = Inr c"
  shows "hyper_body symb coin end_ms srv st =
     Next (st\<lparr>hl_results := hl_results st @ List.map_filter id ros,
               hl_cur_start := c + 1,
               hl_sent := hl_sent st @ [\<lparr>hl_type = ''fundingHistory'', hl_coin = coin,
                  hl_startTime = hl_cur_start st,
                  hl_endTime = min end_ms (hl_cur_start st + window_ms - 1)\<rparr>]\<rparr>)"
  using assms(2-4) hyper_items_rows [OF assms(1), of "hl_results st"]
  by (simp add: hyper_body_def)

lemma bybit_row_entry:
  "1000000000000 \<le> t \<Longrightarrow> t \<le> MAX_MS \<Longrightarrow>
   bybit_row fromiso ''BTCUSDT'' (bybit_entry t) = Inr (Some (bybit_entry_row t))"
  by (simp add: bybit_row_def bybit_fr_def bybit_ft_def bybit_entry_def bybit_entry_row_def
      int_ms_def iso_from_ms_def MIN_MS_def)

lemma hyper_row_entry:
  "1000000000000 \<le> t \<Longrightarrow> t \<le> MAX_MS \<Longrightarrow> r \<noteq> [] \<Longrightarrow>
   hyper_row ''ETH-USDC'' (hyper_entry t r) = Inr (Some (hyper_entry_row t r))"
  by (simp add: hyper_row_def hyper_fr_def hyper_ft_def hyper_entry_def hyper_entry_row_def
      int_ms_def iso_from_ms_def MIN_MS_def)

lemma bybit_last_time_entry:
  "page \<noteq> [] \<Longrightarrow> bybit_last_time (map bybit_entry page) = Inr (last page)"
  by (simp add: bybit_last_time_def last_map bybit_entry_def)

lemma hyper_last_time_entry: "t \<noteq> 0 \<Longrightarrow> hyper_last_time (page @ [hyper_entry t r]) = Inr t"
  by (simp add: hyper_last_time_def hyper_ft_def hyper_entry_def)

lemma bybit_lst_reply: "bybit_lst (bybit_reply lst) = JArr lst"
  by (simp add: bybit_reply_def py_or_def)

lemma every_8h_down_length: "length (every_8h_down t0 n) = n"
  by (simp add: every_8h_down_def)

lemma every_8h_down_sorted: "sorted_wrt (>) (every_8h_down t0 n)"
  unfolding every_8h_down_def by (induction n) (auto simp: sorted_wrt_append)

lemma every_8h_down_bounds:
  "t \<in> set (every_8h_down t0 n) \<Longrightarrow> t0 - 28800000 * int n < t \<and> t \<le> t0"
  by (auto simp: every_8h_down_def)

lemma bybit_rows_entries:
  "\<forall>t \<in> set ts. 1000000000000 \<le> t \<and> t \<le> MAX_MS \<Longrightarrow>
   map (bybit_row fromiso ''BTCUSDT'') (map bybit_entry ts) =
     map Inr (map (\<lambda>t. Some (bybit_entry_row t)) ts)"
  by (simp add: bybit_row_entry)

lemma map_filter_id_Some: "List.map_filter id (map (\<lambda>t. Some (f t)) ts) = map f ts"
  by (induction ts) (simp_all add: map_filter_simps)

lemma iso_2024_12_16_00: "isoformat 1734307200000 = ''2024-12-16T00:00:00''"
  by code_simp

lemma iso_2024_12_16_01: "isoformat 1734310800000 = ''2024-12-16T01:00:00''"
  by code_simp

lemma hyper_rows_duplicate_page:
  "map (hyper_row ''ETH-USDC'') [hyper_entry 1734310800000 ''0.0000125'',
                        hyper_entry 1734307200000 ''0.0000100'',
                        hyper_entry 1734310800000 ''0.0000125''] =
   map Inr [Some (hyper_entry_row 1734310800000 ''0.0000125''),
            Some (hyper_entry_row 1734307200000 ''0.0000100''),
            Some (hyper_entry_row 1734310800000 ''0.0000125'')]"
  by (simp add: hyper_row_entry MAX_MS_def)

text \<open>Three runs that leave the loop waiting for its second answer.\<close>

lemma extract_coin_eth: "extract_coin_from_symbol ''ETH-USDC'' = ''ETH''"
  by (simp add: extract_coin_from_symbol_def is_ascii_letter_def)

lemma binance_full_page_run:
  "binance_run ''BTCUSDT'' 1800000000000
     [\<lambda>q. Body (JArr (map binance_entry (every_8h 1734307200000 1000)))]
     (binance_init 1734307200000)
   = Next \<lparr>bn_results = map binance_entry_row (every_8h 1734307200000 1000),
           bn_cur_start = 1763078400001,
           bn_sent = [\<lparr>bn_symbol = ''BTCUSDT'', bn_startTime = 1734307200000,
                       bn_endTime = 1800000000000, bn_limit = 1000\<rparr>]\<rparr>"
proof -
  let ?bp = "map binance_entry (every_8h 1734307200000 1000)"
  have brows: "map (binance_row ''BTCUSDT'') ?bp =
      map Inr (map binance_entry_row (every_8h 1734307200000 1000))"
    by (rule binance_rows_entries) (auto simp: MIN_MS_def MAX_MS_def dest!: every_8h_bounds)
  have bne: "?bp \<noteq> []" by (simp add: every_8h_def)
  show ?thesis
    using binance_body_page [OF brows bne, of "\<lambda>q. Body (JArr ?bp)" "binance_init 1734307200000"
        1800000000000]
    by (simp add: binance_init_def last_map every_8h_def binance_entry_row_def)
qed

lemma bybit_full_page_run:
  "bybit_run (\<lambda>ft. None) ''BTCUSDT'' 1734307200000
     [\<lambda>q. Body (bybit_reply (map bybit_entry (every_8h_down 1800000000000 200)))]
     (bybit_init 1800000000000)
   = Next \<lparr>by_results = map bybit_entry_row (every_8h_down 1800000000000 200),
           by_cur_end = 1794268799999,
           by_sent = [\<lparr>by_category = ''linear'', by_symbol = ''BTCUSDT'',
                       by_startTime = 1734307200000, by_endTime = 1800000000000,
                       by_limit = 200\<rparr>]\<rparr>"
proof -
  let ?yp = "map bybit_entry (every_8h_down 1800000000000 200)"
  have yrows: "map (bybit_row (\<lambda>ft. None) ''BTCUSDT'') ?yp =
      map Inr (map (\<lambda>t. Some (bybit_entry_row t)) (every_8h_down 1800000000000 200))"
    by (rule bybit_rows_entries) (auto simp: MAX_MS_def dest!: every_8h_down_bounds)
  have yne: "?yp \<noteq> []" by (simp add: every_8h_down_def)
  have ylast: "bybit_last_time ?yp = Inr 1794268800000"
  proof -
    have "every_8h_down 1800000000000 200 \<noteq> []" by (simp add: every_8h_down_def)
    then have "bybit_last_time ?yp = Inr (last (every_8h_down 1800000000000 200))"
      by (rule bybit_last_time_entry)
    then show ?thesis by (simp add: every_8h_down_def last_map)
  qed
  show ?thesis
    using bybit_body_page [OF yrows yne _ bybit_lst_reply ylast,
        of "\<lambda>q. Body (bybit_reply ?yp)" 1734307200000 "bybit_init 1800000000000"]
    by (simp add: bybit_init_def map_filter_id_Some every_8h_down_length)
qed

lemma hyper_page_run:
  "hyper_run ''ETH-USDC'' (extract_coin_from_symbol ''ETH-USDC'') 1800000000000
     [\<lambda>q. Body (JArr [hyper_entry 1734307200000 ''0.0000100'',
                        hyper_entry 1734310800000 ''0.0000125''])]
     (hyper_init 1734307200000)
   = Next \<lparr>hl_results = [hyper_entry_row 1734307200000 ''0.0000100'',
                         hyper_entry_row 1734310800000 ''0.0000125''],
           hl_cur_start = 1734310800001,
           hl_sent = [\<lparr>hl_type = ''fundingHistory'', hl_coin = ''ETH'',
                       hl_startTime = 1734307200000, hl_endTime = 1736899199999\<rparr>]\<rparr>"
proof -
  let ?hp = "[hyper_entry 1734307200000 ''0.0000100'', hyper_entry 1734310800000 ''0.0000125'']"
  have hrows: "map (hyper_row ''ETH-USDC'') ?hp =
      map Inr [Some (hyper_entry_row 1734307200000 ''0.0000100''),
               Some (hyper_entry_row 1734310800000 ''0.0000125'')]"
    by (simp add: hyper_row_entry MAX_MS_def)
  have hlast: "hyper_last_time ?hp = Inr 1734310800000"
    by (simp add: hyper_last_time_def hyper_ft_def hyper_entry_def)
  show ?thesis
    using hyper_body_page [OF hrows _ _ hlast, of "\<lambda>q. Body (JArr ?hp)" "''ETH''"
        "hyper_init 1734307200000" 1800000000000]
    by (simp add: extract_coin_eth hyper_init_def window_ms_def map_filter_simps)
qed

lemma iso_2025_01_15_01: "isoformat 1736902800000 = ''2025-01-15T01:00:00''"
  by code_simp

lemma bybit_row_time:
  "bybit_row fromiso symb item = Inr ro \<Longrightarrow>
   map_option funding_time_ms ro = bybit_entry_time fromiso item"
  unfolding bybit_row_def bybit_entry_time_def entry_time_def normalize_ms_def int_ms_def
  by (cases "bybit_fr item"; cases "bybit_ft item")
     (auto split: sum.splits if_splits option.splits)

lemma hyper_row_time:
  "hyper_row symb item = Inr ro \<Longrightarrow> map_option funding_time_ms ro = hyper_entry_time item"
  unfolding hyper_row_def hyper_entry_time_def entry_time_def normalize_ms_def int_ms_def
  by (cases "hyper_fr item"; cases "hyper_ft item")
     (auto split: sum.splits if_splits option.splits)

lemma map_filter_Cons_None: "f x = None \<Longrightarrow> List.map_filter f (x # xs) = List.map_filter f xs"
  by (simp add: map_filter_simps)

lemma map_filter_Cons_Some:
  "f x = Some y \<Longrightarrow> List.map_filter f (x # xs) = y # List.map_filter f xs"
  by (simp add: map_filter_simps)

lemma int_of_string_ms: "int_of_string ''1700000000000'' = Inr 1700000000000"
  by (simp add: int_of_string_def strip_def is_space_def digit_val_def)

lemma int_of_string_iso: "int_of_string ''2023-11-14T22:13:20Z'' = Inl ValueError"
  by (simp add: int_of_string_def strip_def is_space_def digit_val_def)

lemma int_of_string_word: "int_of_string ''yesterday'' = Inl ValueError"
  by (simp add: int_of_string_def strip_def is_space_def digit_val_def)

lemma iso_2023_11_14: "isoformat 1700000000000 = ''2023-11-14T22:13:20''"
  by code_simp

lemma iso_2023_11_14_23: "isoformat 1700003600000 = ''2023-11-14T23:13:20''"
  by code_simp

lemma iso_1970_01_20: "isoformat 1700000000 = ''1970-01-20T16:13:20''"
  by code_simp

lemma get_first_obj: "\<exists>v. get_first (JObj kvs) ks = Inr v"
  by (induction "JObj kvs" ks rule: get_first.induct) auto

lemma bybit_row_skipped:
  assumes "bad = JObj kvs" and "bybit_entry_time fromiso bad = None"
  shows "bybit_row fromiso symb bad = Inr None"
proof -
  obtain fr where fr: "bybit_fr bad = Inr fr"
    using get_first_obj [of kvs] assms(1) unfolding bybit_fr_def by blast
  obtain ft where ft: "bybit_ft bad = Inr ft"
    using get_first_obj [of kvs] assms(1) unfolding bybit_ft_def by blast
  show ?thesis
    using assms(2) fr ft
    by (auto simp: bybit_row_def bybit_entry_time_def entry_time_def int_ms_def
        split: sum.splits if_splits)
qed

lemma hyper_row_skipped:
  assumes "bad = JObj kvs" and "hyper_entry_time bad = None"
  shows "hyper_row symb bad = Inr None"
proof -
  obtain fr where fr: "hyper_fr bad = Inr fr"
    using get_first_obj [of kvs] assms(1) unfolding hyper_fr_def by blast
  obtain ft where ft: "hyper_ft bad = Inr ft"
    using get_first_obj [of kvs] assms(1) unfolding hyper_ft_def by blast
  show ?thesis
    using assms(2) fr ft
    by (auto simp: hyper_row_def hyper_entry_time_def entry_time_def int_ms_def
        split: sum.splits if_splits)
qed

lemma bybit_items_skip:
  "bybit_row fromiso symb bad = Inr None \<Longrightarrow>
   bybit_items fromiso symb (xs @ bad # ys) acc = bybit_items fromiso symb (xs @ ys) acc"
  by (induction xs arbitrary: acc) (auto split: sum.splits option.splits)

lemma hyper_items_skip:
  "hyper_row symb bad = Inr None \<Longrightarrow>
   hyper_items symb (xs @ bad # ys) acc = hyper_items symb (xs @ ys) acc"
  by (induction xs arbitrary: acc) (auto split: sum.splits option.splits)

lemma binance_items_abort:
  "map (binance_row symb) xs = map Inr rows \<Longrightarrow> binance_time bad = Inl e \<Longrightarrow>
   binance_items symb (xs @ bad # ys) acc = Raised e (acc @ rows)"
proof (induction xs arbitrary: rows acc)
  case Nil
  then show ?case by (simp add: binance_row_def)
next
  case (Cons x xs)
  then obtain r rs where rows: "rows = r # rs" by (cases rows) auto
  with Cons.prems have r: "binance_row symb x = Inr r"
    and rs: "map (binance_row symb) xs = map Inr rs" by auto
  show ?case using Cons.IH [OF rs Cons.prems(2), of "acc @ [r]"] r rows by simp
qed

lemma sorted_wrt_rev_gt:
  "sorted_wrt (<) (rev xs) = sorted_wrt (>) (xs :: int list)"
  by (simp add: sorted_wrt_rev) 

lemma bybit_rows_all:
  "map (bybit_row fromiso symb) page = map (\<lambda>r. Inr (Some r)) rows \<Longrightarrow>
   map (bybit_row fromiso symb) page = map Inr (map Some rows)"
  by simp

lemma map_filter_id_map_Some: "List.map_filter id (map Some rows) = rows"
  by (induction rows) (simp_all add: map_filter_simps)

lemma every_8h_down_append:
  "every_8h_down t0 (m + n) = every_8h_down t0 m @ every_8h_down (t0 - 28800000 * int m) n"
proof -
  have "map (\<lambda>i. t0 - 28800000 * int i) [0..<m + n] =
        map (\<lambda>i. t0 - 28800000 * int i) [0..<m]
        @ map (\<lambda>i. t0 - 28800000 * int m - 28800000 * int i) [0..<n]"
  proof (induction n)
    case 0
    show ?case by simp
  next
    case (Suc n)
    have "[0..<m + Suc n] = [0..<m + n] @ [m + n]" by simp
    then show ?case using Suc by (simp add: algebra_simps)
  qed
  then show ?thesis unfolding every_8h_down_def .
qed

lemma every_8h_down_605:
  "every_8h_down 1800000000000 200 @ every_8h_down 1794240000000 200
     @ every_8h_down 1788480000000 200 @ every_8h_down 1782720000000 5
   = every_8h_down 1800000000000 605"
proof -
  have a: "every_8h_down 1788480000000 205
           = every_8h_down 1788480000000 200 @ every_8h_down 1782720000000 5"
    using every_8h_down_append [of 1788480000000 200 5] by simp
  have b: "every_8h_down 1794240000000 405
           = every_8h_down 1794240000000 200 @ every_8h_down 1788480000000 205"
    using every_8h_down_append [of 1794240000000 200 205] by simp
  have c: "every_8h_down 1800000000000 605
           = every_8h_down 1800000000000 200 @ every_8h_down 1794240000000 405"
    using every_8h_down_append [of 1800000000000 200 405] by simp
  show ?thesis unfolding c b a ..
qed

lemma bybit_rows_page:
  "\<forall>t \<in> set ts. 1000000000000 \<le> t \<and> t \<le> MAX_MS \<Longrightarrow>
   map (bybit_row fromiso ''BTCUSDT'') (map bybit_entry ts) =
     map (\<lambda>r. Inr (Some r)) (map bybit_entry_row ts)"
  by (simp add: bybit_row_entry)

lemma bybit_entry_row_times: "map funding_time_ms (map bybit_entry_row ts) = ts"
  by (simp add: bybit_entry_row_def comp_def)

lemma bybit_last_time_page:
  "0 < n \<Longrightarrow> bybit_last_time (map bybit_entry (every_8h_down t0 n)) =
     Inr (t0 - 28800000 * int (n - 1))"
proof -
  assume "0 < n"
  then have ne: "every_8h_down t0 n \<noteq> []" by (simp add: every_8h_down_def)
  have "last (every_8h_down t0 n) = t0 - 28800000 * int (n - 1)"
    using \<open>0 < n\<close> by (simp add: every_8h_down_def last_map)
  with bybit_last_time_entry [OF ne] show ?thesis by simp
qed

lemma iso_2024_12_16_08: "isoformat 1734336000000 = ''2024-12-16T08:00:00''"
  by code_simp

declare fixed_windows.simps [simp del]

lemma hyper_body_sent:
  "hl_sent (flow_state (hyper_body symb coin end_ms srv st)) =
     hl_sent st @ [\<lparr>hl_type = ''fundingHistory'', hl_coin = coin,
                    hl_startTime = hl_cur_start st,
                    hl_endTime = min end_ms (hl_cur_start st + window_ms - 1)\<rparr>]"
  by (simp add: hyper_body_def Let_def
      split: response.splits sum.splits json.splits exec.splits)

lemma hyper_run_sent:
  "list_all (\<lambda>q. hl_type q = ''fundingHistory'' \<and> hl_coin q = coin \<and> hl_startTime q \<le> end_ms
      \<and> hl_endTime q = min end_ms (hl_startTime q + window_ms - 1)) (hl_sent st) \<Longrightarrow>
   list_all (\<lambda>q. hl_type q = ''fundingHistory'' \<and> hl_coin q = coin \<and> hl_startTime q \<le> end_ms
      \<and> hl_endTime q = min end_ms (hl_startTime q + window_ms - 1))
     (hl_sent (flow_state (hyper_run symb coin end_ms net st)))"
proof (induction net arbitrary: st)
  case Nil
  then show ?case by simp
next
  case (Cons srv net)
  show ?case
  proof (cases "hl_cur_start st \<le> end_ms")
    case False
    with Cons.prems show ?thesis by simp
  next
    case True
    let ?P = "\<lambda>q. hl_type q = ''fundingHistory'' \<and> hl_coin q = coin \<and> hl_startTime q \<le> end_ms
      \<and> hl_endTime q = min end_ms (hl_startTime q + window_ms - 1)"
    have b: "list_all ?P (hl_sent (flow_state (hyper_body symb coin end_ms srv st)))"
      using Cons.prems True by (simp add: hyper_body_sent)
    show ?thesis
    proof (cases "hyper_body symb coin end_ms srv st")
      case (Next s)
      with b have "list_all ?P (hl_sent s)" by simp
      from Cons.IH [OF this] Next True show ?thesis by simp
    next
      case (Break s)
      with b True show ?thesis by simp
    qed
  qed
qed

lemma hyper_run_first_sent:
  "hl_sent st \<noteq> [] \<Longrightarrow>
   hd (hl_sent (flow_state (hyper_run symb coin end_ms net st))) = hd (hl_sent st)
   \<and> hl_sent (flow_state (hyper_run symb coin end_ms net st)) \<noteq> []"
proof (induction net arbitrary: st)
  case Nil
  then show ?case by simp
next
  case (Cons srv net)
  show ?case
  proof (cases "hl_cur_start st \<le> end_ms")
    case False
    with Cons.prems show ?thesis by simp
  next
    case True
    have b: "hl_sent (flow_state (hyper_body symb coin end_ms srv st)) \<noteq> []"
      "hd (hl_sent (flow_state (hyper_body symb coin end_ms srv st))) = hd (hl_sent st)"
      using Cons.prems by (simp_all add: hyper_body_sent)
    show ?thesis
    proof (cases "hyper_body symb coin end_ms srv st")
      case (Next s)
      with b have "hl_sent s \<noteq> []" "hd (hl_sent s) = hd (hl_sent st)" by simp_all
      with Cons.IH [of s] Next True show ?thesis by simp
    next
      case (Break s)
      with b True show ?thesis by simp
    qed
  qed
qed

lemma hyper_run_first_request:
  "hl_sent st = [] \<Longrightarrow>
   hl_sent (flow_state (hyper_run symb coin end_ms net st)) = []
   \<or> hl_startTime (hd (hl_sent (flow_state (hyper_run symb coin end_ms net st))))
       = hl_cur_start st"
proof (cases net)
  case Nil
  assume "hl_sent st = []"
  with Nil show ?thesis by simp
next
  case (Cons srv rest)
  assume e: "hl_sent st = []"
  show ?thesis
  proof (cases "hl_cur_start st \<le> end_ms")
    case False
    with e Cons show ?thesis by simp
  next
    case True
    have b: "hl_sent (flow_state (hyper_body symb coin end_ms srv st)) =
        [\<lparr>hl_type = ''fundingHistory'', hl_coin = coin, hl_startTime = hl_cur_start st,
          hl_endTime = min end_ms (hl_cur_start st + window_ms - 1)\<rparr>]"
      using e by (simp add: hyper_body_sent)
    show ?thesis
    proof (cases "hyper_body symb coin end_ms srv st")
      case (Next s)
      with b have s: "hl_sent s \<noteq> []" "hd (hl_sent s) = \<lparr>hl_type = ''fundingHistory'',
          hl_coin = coin, hl_startTime = hl_cur_start st,
          hl_endTime = min end_ms (hl_cur_start st + window_ms - 1)\<rparr>" by simp_all
      from hyper_run_first_sent [OF s(1), of symb coin end_ms rest] s(2) Next True Cons
      show ?thesis by simp
    next
      case (Break s)
      with b True Cons show ?thesis by simp
    qed
  qed
qed

lemma hyper_run_empty_answers:
  "hl_cur_start st \<le> end_ms \<Longrightarrow>
   length (fixed_windows coin (hl_cur_start st) end_ms) \<le> n \<Longrightarrow>
   hl_sent (flow_state (hyper_run symb coin end_ms (replicate n (\<lambda>q. Body (JArr []))) st))
     = hl_sent st @ fixed_windows coin (hl_cur_start st) end_ms
   \<and> (\<exists>s. hyper_run symb coin end_ms (replicate n (\<lambda>q. Body (JArr []))) st = Break s)"
proof (induction n arbitrary: st)
  case 0
  have "fixed_windows coin (hl_cur_start st) end_ms \<noteq> []"
    using "0.prems"(1) by (subst fixed_windows.simps) simp
  with "0.prems"(2) show ?case by simp
next
  case (Suc n)
  let ?q = "\<lparr>hl_type = ''fundingHistory'', hl_coin = coin, hl_startTime = hl_cur_start st,
             hl_endTime = min end_ms (hl_cur_start st + window_ms - 1)\<rparr>"
  let ?s = "st\<lparr>hl_sent := hl_sent st @ [?q],
                hl_cur_start := min end_ms (hl_cur_start st + window_ms - 1) + 1\<rparr>"
  have b: "hyper_body symb coin end_ms (\<lambda>q. Body (JArr [])) st = Next ?s"
    by (simp add: hyper_body_def Let_def)
  have fw: "fixed_windows coin (hl_cur_start st) end_ms =
      ?q # fixed_windows coin (hl_cur_start st + window_ms) end_ms"
    using Suc.prems(1) by (subst fixed_windows.simps) simp
  show ?case
  proof (cases "hl_cur_start st + window_ms \<le> end_ms")
    case True
    then have m: "min end_ms (hl_cur_start st + window_ms - 1) + 1 = hl_cur_start st + window_ms"
      by simp
    have "hl_cur_start ?s \<le> end_ms" using True m by simp
    moreover have "length (fixed_windows coin (hl_cur_start ?s) end_ms) \<le> n"
      using Suc.prems(2) fw m by simp
    ultimately show ?thesis
      using Suc.IH [of ?s] Suc.prems(1) b fw m by simp
  next
    case False
    then have m: "min end_ms (hl_cur_start st + window_ms - 1) + 1 = end_ms + 1" by simp
    have e: "fixed_windows coin (hl_cur_start st + window_ms) end_ms = []"
      using False by (subst fixed_windows.simps) simp
    have "hyper_run symb coin end_ms (replicate n (\<lambda>q. Body (JArr []))) ?s = Break ?s"
      using m by (cases n) simp_all
    then show ?thesis using Suc.prems(1) b fw e by simp
  qed
qed

lemma py_eq_canon: "py_eq a b \<longleftrightarrow> canon_rate a = canon_rate b"
  by (cases a; cases b) (auto simp: py_eq_def)

lemma same_key_row_key: "same_key r r' \<longleftrightarrow> row_key r = row_key r'"
  by (simp add: same_key_def row_key_def py_eq_canon)

lemma dict_put_keys:
  "set (map row_key (dict_put vs r)) = insert (row_key r) (set (map row_key vs))"
  by (induction vs) (auto simp: same_key_row_key)

lemma dict_put_distinct:
  "distinct (map row_key vs) \<Longrightarrow> distinct (map row_key (dict_put vs r))"
proof (induction vs)
  case Nil
  then show ?case by simp
next
  case (Cons v vs)
  show ?case
  proof (cases "same_key v r")
    case True
    with Cons.prems show ?thesis by (simp add: same_key_row_key)
  next
    case False
    have "row_key v \<notin> set (map row_key (dict_put vs r))"
      using Cons.prems False unfolding dict_put_keys by (auto simp: same_key_row_key)
    with Cons False show ?thesis by simp
  qed
qed

lemma foldl_dict_put_distinct:
  "distinct (map row_key acc) \<Longrightarrow> distinct (map row_key (foldl dict_put acc rs))"
  by (induction rs arbitrary: acc) (simp_all add: dict_put_distinct)

lemma dict_put_subset: "set (dict_put vs r) \<subseteq> insert r (set vs)"
  by (induction vs) auto

lemma foldl_dict_put_subset: "set (foldl dict_put acc rs) \<subseteq> set acc \<union> set rs"
proof (induction rs arbitrary: acc)
  case Nil
  show ?case by simp
next
  case (Cons r rs)
  show ?case using Cons [of "dict_put acc r"] dict_put_subset [of acc r] by auto
qed

lemma dedup_sorted_props:
  assumes "dedup_sorted results = Inr rows"
  shows "sorted (map funding_time_ms rows)" and "distinct (map row_key rows)"
    and "set rows \<subseteq> set results"
proof -
  from assms have rows: "rows = sort_key funding_time_ms (foldl dict_put [] results)"
    by (simp add: dedup_sorted_def split: if_splits)
  show "sorted (map funding_time_ms rows)" unfolding rows by (rule sorted_sort_key)
  have "distinct (map row_key (foldl dict_put [] results))"
    by (rule foldl_dict_put_distinct) simp
  then show "distinct (map row_key rows)" unfolding rows by (simp add: distinct_map)
  show "set rows \<subseteq> set results"
    unfolding rows using foldl_dict_put_subset [of "[]" results] by simp
qed

lemma fixed_windows_two:
  "fixed_windows ''ETH'' 1734307200000 1736899200000 =
     [\<lparr>hl_type = ''fundingHistory'', hl_coin = ''ETH'', hl_startTime = 1734307200000,
       hl_endTime = 1736899199999\<rparr>,
      \<lparr>hl_type = ''fundingHistory'', hl_coin = ''ETH'', hl_startTime = 1736899200000,
       hl_endTime = 1736899200000\<rparr>]"
  by (subst fixed_windows.simps, simp add: window_ms_def)+

lemma hyper_page_then_failure:
  "hyper_run ''ETH-USDC'' (extract_coin_from_symbol ''ETH-USDC'') 1736899200000
     [\<lambda>q. Body (JArr [hyper_entry 1734307200000 ''0.0000100'',
                        hyper_entry 1734310800000 ''0.0000125'']),
      \<lambda>q. Failed]
     (hyper_init 1734307200000)
   = Break \<lparr>hl_results = [hyper_entry_row 1734307200000 ''0.0000100'',
                          hyper_entry_row 1734310800000 ''0.0000125''],
            hl_cur_start = 1734310800001,
            hl_sent = [\<lparr>hl_type = ''fundingHistory'', hl_coin = ''ETH'',
                        hl_startTime = 1734307200000, hl_endTime = 1736899199999\<rparr>,
                       \<lparr>hl_type = ''fundingHistory'', hl_coin = ''ETH'',
                        hl_startTime = 1734310800001, hl_endTime = 1736899200000\<rparr>]\<rparr>"
proof -
  let ?hp = "[hyper_entry 1734307200000 ''0.0000100'', hyper_entry 1734310800000 ''0.0000125'']"
  have hrows: "map (hyper_row ''ETH-USDC'') ?hp =
      map Inr [Some (hyper_entry_row 1734307200000 ''0.0000100''),
               Some (hyper_entry_row 1734310800000 ''0.0000125'')]"
    by (simp add: hyper_row_entry MAX_MS_def)
  have hlast: "hyper_last_time ?hp = Inr 1734310800000"
    by (simp add: hyper_last_time_def hyper_ft_def hyper_entry_def)
  show ?thesis
    using hyper_body_page [OF hrows _ _ hlast, of "\<lambda>q. Body (JArr ?hp)" "''ETH''"
        "hyper_init 1734307200000" 1736899200000]
    by (simp add: extract_coin_eth hyper_init_def window_ms_def map_filter_simps
        hyper_body_def)
qed

lemma dedup_sorted_two_rows:
  "dedup_sorted [hyper_entry_row 1734307200000 ''0.0000100'',
                 hyper_entry_row 1734310800000 ''0.0000125'']
   = Inr [hyper_entry_row 1734307200000 ''0.0000100'',
          hyper_entry_row 1734310800000 ''0.0000125'']"
  by (simp add: dedup_sorted_def same_key_def hyper_entry_row_def)

text \<open>The rows a page yields, whichever way the loop over its entries ends.\<close>

lemma get_first_not_dict: "\<not> is_dict item \<Longrightarrow> ks \<noteq> [] \<Longrightarrow> get_first item ks = Inl AttributeError"
  by (induction item ks rule: get_first.induct) (auto elim: is_dict.elims)

lemma get_first_dict: "is_dict item \<Longrightarrow> \<exists>v. get_first item ks = Inr v"
  by (cases item) (simp_all add: get_first_obj)

lemma bybit_row_raises:
  assumes "entry_raises (bybit_entry_time fromiso item) item"
  shows "\<exists>e. bybit_row fromiso symb item = Inl e"
proof (cases "is_dict item")
  case False
  then have "bybit_fr item = Inl AttributeError"
    unfolding bybit_fr_def by (rule get_first_not_dict) simp
  then show ?thesis by (simp add: bybit_row_def)
next
  case True
  obtain fr where fr: "bybit_fr item = Inr fr"
    using get_first_dict [OF True] unfolding bybit_fr_def by blast
  obtain ft where ft: "bybit_ft item = Inr ft"
    using get_first_dict [OF True] unfolding bybit_ft_def by blast
  show ?thesis
    using assms True fr ft
    by (auto simp: bybit_row_def bybit_entry_time_def entry_time_def int_ms_def
        entry_raises_def renders_def normalize_ms_def
        split: sum.splits if_splits option.splits)
qed

lemma bybit_row_passes:
  assumes "\<not> entry_raises (bybit_entry_time fromiso item) item"
  shows "\<exists>ro. bybit_row fromiso symb item = Inr ro"
proof -
  from assms have d: "is_dict item" by (auto simp: entry_raises_def split: if_splits)
  obtain fr where fr: "bybit_fr item = Inr fr"
    using get_first_dict [OF d] unfolding bybit_fr_def by blast
  obtain ft where ft: "bybit_ft item = Inr ft"
    using get_first_dict [OF d] unfolding bybit_ft_def by blast
  show ?thesis
    using assms d fr ft
    by (auto simp: bybit_row_def bybit_entry_time_def entry_time_def int_ms_def
        entry_raises_def renders_def normalize_ms_def
        split: sum.splits if_splits option.splits)
qed

lemma hyper_row_raises:
  assumes "entry_raises (hyper_entry_time item) item"
  shows "\<exists>e. hyper_row symb item = Inl e"
proof (cases "is_dict item")
  case False
  then have "hyper_ft item = Inl AttributeError"
    unfolding hyper_ft_def by (rule get_first_not_dict) simp
  then show ?thesis by (simp add: hyper_row_def)
next
  case True
  obtain fr where fr: "hyper_fr item = Inr fr"
    using get_first_dict [OF True] unfolding hyper_fr_def by blast
  obtain ft where ft: "hyper_ft item = Inr ft"
    using get_first_dict [OF True] unfolding hyper_ft_def by blast
  show ?thesis
    using assms True fr ft
    by (auto simp: hyper_row_def hyper_entry_time_def entry_time_def int_ms_def
        entry_raises_def renders_def normalize_ms_def
        split: sum.splits if_splits option.splits)
qed

lemma hyper_row_passes:
  assumes "\<not> entry_raises (hyper_entry_time item) item"
  shows "\<exists>ro. hyper_row symb item = Inr ro"
proof -
  from assms have d: "is_dict item" by (auto simp: entry_raises_def split: if_splits)
  obtain fr where fr: "hyper_fr item = Inr fr"
    using get_first_dict [OF d] unfolding hyper_fr_def by blast
  obtain ft where ft: "hyper_ft item = Inr ft"
    using get_first_dict [OF d] unfolding hyper_ft_def by blast
  show ?thesis
    using assms d fr ft
    by (auto simp: hyper_row_def hyper_entry_time_def entry_time_def int_ms_def
        entry_raises_def renders_def normalize_ms_def
        split: sum.splits if_splits option.splits)
qed

lemma binance_row_raises:
  "binance_raises item \<Longrightarrow> \<exists>e. binance_row symb item = Inl e"
  by (auto simp: binance_raises_def binance_row_def renders_def split: sum.splits)

lemma binance_row_passes:
  "\<not> binance_raises item \<Longrightarrow>
   \<exists>row. binance_row symb item = Inr row \<and> binance_raw item = Some (funding_time_ms row)"
  by (cases item)
     (auto simp: binance_raises_def binance_row_def renders_def binance_raw_def
       binance_time_def split: sum.splits)

lemma bybit_items_prefix_times:
  "map funding_time_ms (exec_state (bybit_items fromiso symb items acc)) =
     map funding_time_ms acc
     @ List.map_filter (bybit_entry_time fromiso)
         (takeWhile (\<lambda>item. \<not> entry_raises (bybit_entry_time fromiso item) item) items)"
proof (induction items arbitrary: acc)
  case Nil
  show ?case by (simp add: map_filter_simps)
next
  case (Cons item items)
  show ?case
  proof (cases "entry_raises (bybit_entry_time fromiso item) item")
    case True
    from bybit_row_raises [OF True] obtain e where "bybit_row fromiso symb item = Inl e" ..
    with True show ?thesis by (simp add: map_filter_simps)
  next
    case False
    from bybit_row_passes [OF False] obtain ro where ro: "bybit_row fromiso symb item = Inr ro" ..
    note t = bybit_row_time [OF ro]
    show ?thesis
    proof (cases ro)
      case None
      with t have "bybit_entry_time fromiso item = None" by simp
      with None ro False show ?thesis using Cons.IH [of acc] by (simp add: map_filter_Cons_None)
    next
      case (Some row)
      with t have "bybit_entry_time fromiso item = Some (funding_time_ms row)" by simp
      with Some ro False show ?thesis
        using Cons.IH [of "acc @ [row]"] by (simp add: map_filter_Cons_Some)
    qed
  qed
qed

lemma hyper_items_prefix_times:
  "map funding_time_ms (exec_state (hyper_items symb items acc)) =
     map funding_time_ms acc
     @ List.map_filter hyper_entry_time
         (takeWhile (\<lambda>item. \<not> entry_raises (hyper_entry_time item) item) items)"
proof (induction items arbitrary: acc)
  case Nil
  show ?case by (simp add: map_filter_simps)
next
  case (Cons item items)
  show ?case
  proof (cases "entry_raises (hyper_entry_time item) item")
    case True
    from hyper_row_raises [OF True] obtain e where "hyper_row symb item = Inl e" ..
    with True show ?thesis by (simp add: map_filter_simps)
  next
    case False
    from hyper_row_passes [OF False] obtain ro where ro: "hyper_row symb item = Inr ro" ..
    note t = hyper_row_time [OF ro]
    show ?thesis
    proof (cases ro)
      case None
      with t have "hyper_entry_time item = None" by simp
      with None ro False show ?thesis using Cons.IH [of acc] by (simp add: map_filter_Cons_None)
    next
      case (Some row)
      with t have "hyper_entry_time item = Some (funding_time_ms row)" by simp
      with Some ro False show ?thesis
        using Cons.IH [of "acc @ [row]"] by (simp add: map_filter_Cons_Some)
    qed
  qed
qed

lemma binance_items_prefix_times:
  "map funding_time_ms (exec_state (binance_items symb items acc)) =
     map funding_time_ms acc
     @ List.map_filter binance_raw (takeWhile (\<lambda>item. \<not> binance_raises item) items)"
proof (induction items arbitrary: acc)
  case Nil
  show ?case by (simp add: map_filter_simps)
next
  case (Cons item items)
  show ?case
  proof (cases "binance_raises item")
    case True
    from binance_row_raises [OF True] obtain e where "binance_row symb item = Inl e" ..
    with True show ?thesis by (simp add: map_filter_simps)
  next
    case False
    from binance_row_passes [OF False] obtain row where
      "binance_row symb item = Inr row" "binance_raw item = Some (funding_time_ms row)" by blast
    with False show ?thesis
      using Cons.IH [of "acc @ [row]"] by (simp add: map_filter_Cons_Some)
  qed
qed

lemma bybit_raising_page_rows:
  "bybit_items iso_table ''BTCUSDT'' bybit_raising_page [] =
     Raised DateError
       [row_at ''bybit'' ''BTCUSDT'' 1700000000000 ''2023-11-14T22:13:20Z'' ''0.0001'',
        row_at ''bybit'' ''BTCUSDT'' 1700000000000 ''2023-11-14T22:13:20Z'' ''0.0001'',
        row_at ''bybit'' ''BTCUSDT'' 1700000000000 ''2023-11-14T22:13:20Z'' ''0.0001'']"
  by (simp add: bybit_raising_page_def bybit_mixed_page_def bybit_entry_def bybit_row_def
      bybit_fr_def bybit_ft_def int_ms_def iso_table_def int_of_string_ms int_of_string_iso
      int_of_string_word iso_from_ms_def MIN_MS_def MAX_MS_def iso_2023_11_14 row_at_def)

lemma hyper_raising_page_rows:
  "hyper_items ''ETH-USDC'' hyper_raising_page [] =
     Raised AttributeError
       [row_at ''hyperliquid'' ''ETH-USDC'' 1700000000000 ''2023-11-14T22:13:20Z''
          ''0.0000125'',
        row_at ''hyperliquid'' ''ETH-USDC'' 1700003600000 ''2023-11-14T23:13:20Z''
          ''0.0000125'']"
  by (simp add: hyper_raising_page_def hyper_mixed_page_def hyper_iso_entry_def hyper_entry_def
      hyper_row_def hyper_fr_def hyper_ft_def int_ms_def int_of_string_iso iso_from_ms_def
      MIN_MS_def MAX_MS_def iso_2023_11_14 iso_2023_11_14_23 row_at_def)

lemma binance_raising_page_rows:
  "binance_items ''BTCUSDT'' binance_raising_page [] =
     Raised TypeError
       [row_at ''binance'' ''BTCUSDT'' 1700000000 ''1970-01-20T16:13:20Z'' ''0.00010000'',
        row_at ''binance'' ''BTCUSDT'' 1700000000000 ''2023-11-14T22:13:20Z''
          ''0.00010000'']"
proof -
  have "binance_row ''BTCUSDT'' entry_without_time = Inl TypeError"
    by (simp add: binance_row_def binance_time_def entry_without_time_def)
  then show ?thesis
    by (simp add: binance_raising_page_def binance_row_entry MIN_MS_def MAX_MS_def
        binance_entry_row_def iso_2023_11_14 iso_1970_01_20 row_at_def)
qed

text \<open>A round of the Hyperliquid loop, and the closing statement on the keys.\<close>

lemma hyper_last_time_raw: "hyper_raw item = Some t \<Longrightarrow> hyper_last_time (pre @ [item]) = Inr t"
  by (auto simp: hyper_raw_def raw_int_def hyper_last_time_def split: sum.splits if_splits)

lemma hyper_last_time_raw_last:
  assumes "page \<noteq> []" and "hyper_raw (last page) = Some t"
  shows "hyper_last_time page = Inr t"
proof -
  from assms(1) have "page = butlast page @ [last page]" by simp
  then show ?thesis using hyper_last_time_raw [OF assms(2), of "butlast page"] by simp
qed

lemma hyper_items_appended:
  "hyper_items symb items acc = Done rs \<Longrightarrow>
   \<exists>new. rs = acc @ new \<and> map funding_time_ms new = List.map_filter hyper_entry_time items"
proof (induction items arbitrary: acc)
  case Nil
  then show ?case by (simp add: map_filter_simps)
next
  case (Cons item items)
  show ?case
  proof (cases "hyper_row symb item")
    case (Inl e)
    with Cons.prems show ?thesis by simp
  next
    case (Inr ro)
    note t = hyper_row_time [OF Inr]
    show ?thesis
    proof (cases ro)
      case None
      with Inr Cons.prems have "hyper_items symb items acc = Done rs" by simp
      moreover from t None have "hyper_entry_time item = None" by simp
      ultimately show ?thesis using Cons.IH [of acc] by (simp add: map_filter_Cons_None)
    next
      case (Some row)
      with Inr Cons.prems have "hyper_items symb items (acc @ [row]) = Done rs" by simp
      from Cons.IH [OF this] obtain new where
        new: "rs = (acc @ [row]) @ new"
          "map funding_time_ms new = List.map_filter hyper_entry_time items" by blast
      from t Some have "hyper_entry_time item = Some (funding_time_ms row)" by simp
      with new have "rs = acc @ (row # new) \<and>
          map funding_time_ms (row # new) = List.map_filter hyper_entry_time (item # items)"
        by (simp add: map_filter_Cons_Some)
      then show ?thesis by blast
    qed
  qed
qed

lemma hyper_body_entries:
  assumes "srv \<lparr>hl_type = ''fundingHistory'', hl_coin = coin, hl_startTime = hl_cur_start st,
               hl_endTime = min end_ms (hl_cur_start st + window_ms - 1)\<rparr> = Body (JArr page)"
    and "page \<noteq> []"
    and "hyper_items symb page (hl_results st) = Done rs"
    and "hyper_raw (last page) = Some t"
  shows "hyper_body symb coin end_ms srv st =
     Next (st\<lparr>hl_results := rs, hl_cur_start := t + 1,
               hl_sent := hl_sent st @ [\<lparr>hl_type = ''fundingHistory'', hl_coin = coin,
                  hl_startTime = hl_cur_start st,
                  hl_endTime = min end_ms (hl_cur_start st + window_ms - 1)\<rparr>]\<rparr>)"
  using assms(1-3) hyper_last_time_raw_last [OF assms(2,4)]
  by (simp add: hyper_body_def Let_def)

lemma hyper_body_no_entries:
  assumes "srv \<lparr>hl_type = ''fundingHistory'', hl_coin = coin, hl_startTime = hl_cur_start st,
               hl_endTime = min end_ms (hl_cur_start st + window_ms - 1)\<rparr> = Body j"
    and "no_entries j" and "py_len j = Inr n"
  shows "hyper_body symb coin end_ms srv st =
     Next (st\<lparr>hl_cur_start := min end_ms (hl_cur_start st + window_ms - 1) + 1,
               hl_sent := hl_sent st @ [\<lparr>hl_type = ''fundingHistory'', hl_coin = coin,
                  hl_startTime = hl_cur_start st,
                  hl_endTime = min end_ms (hl_cur_start st + window_ms - 1)\<rparr>]\<rparr>)"
  using assms by (cases j) (simp_all add: hyper_body_def Let_def)

lemma hyper_run_step:
  assumes "hyper_run symb coin end_ms pre st0 = Next st"
    and "hyper_body symb coin end_ms srv st = Next st'"
  shows "hyper_run symb coin end_ms (pre @ srv # rest) st0 = hyper_run symb coin end_ms rest st'"
  using assms hyper_run_Next_guard [OF assms(1)] by (simp add: hyper_run_append)

lemma foldl_dict_put_keys:
  "set (map row_key (foldl dict_put acc rs)) = set (map row_key acc) \<union> set (map row_key rs)"
proof (induction rs arbitrary: acc)
  case Nil
  show ?case by simp
next
  case (Cons r rs)
  show ?case unfolding foldl_Cons Cons [of "dict_put acc r"] dict_put_keys by auto
qed

lemma dedup_sorted_keys:
  assumes "dedup_sorted results = Inr rows"
  shows "set (map row_key rows) = set (map row_key results)"
proof -
  from assms have rows: "rows = sort_key funding_time_ms (foldl dict_put [] results)"
    by (simp add: dedup_sorted_def split: if_splits)
  show ?thesis unfolding rows using foldl_dict_put_keys [of "[]" results] by simp
qed

text \<open>
  Strictly ordered pages give strictly ordered rows: the loop invariants, along the
  requests sent and the answers received.
\<close>

lemma those_eq_Some: "those xs = Some ys \<Longrightarrow> xs = map Some ys"
  by (induction xs arbitrary: ys) (auto split: option.splits)

lemma page_okD:
  assumes "page_ok ord lo hi (map raw data)"
  obtains ts where "map raw data = map Some ts" and "sorted_wrt ord ts"
    and "\<forall>t \<in> set ts. lo \<le> t \<and> t \<le> hi"
proof -
  from assms obtain ts where t: "those (map raw data) = Some ts"
    and s: "sorted_wrt ord ts" and w: "list_all (\<lambda>t. lo \<le> t \<and> t \<le> hi) ts"
    by (auto simp: page_ok_def split: option.splits)
  from those_eq_Some [OF t] s w show ?thesis by (intro that [of ts]) (auto simp: list_all_iff)
qed

lemma sorted_append_take:
  fixes xs ts :: "int list"
  assumes "sorted_wrt (<) xs" and "sorted_wrt (<) ts"
    and "\<forall>a \<in> set xs. a < c" and "\<forall>t \<in> set ts. c \<le> t"
  shows "sorted_wrt (<) (xs @ take k ts)"
proof -
  have "sorted_wrt (<) (take k ts)" using assms(2) by (rule sorted_wrt_take)
  moreover have "\<forall>a \<in> set xs. \<forall>t \<in> set (take k ts). a < t"
    using assms(3,4) by (fastforce dest: in_set_takeD)
  ultimately show ?thesis using assms(1) by (simp add: sorted_wrt_append)
qed

lemma strict_sorted_le_last_int:
  "sorted_wrt (<) ts \<Longrightarrow> t \<in> set ts \<Longrightarrow> t \<le> (last ts :: int)"
  using strict_sorted_le_last [of "\<lambda>x. x" ts t] by simp

lemma binance_row_raw:
  "binance_raw item = Some t \<Longrightarrow>
   (\<exists>e. binance_row symb item = Inl e)
   \<or> (\<exists>row. binance_row symb item = Inr row \<and> funding_time_ms row = t)"
  by (auto simp: binance_raw_def binance_row_def split: sum.splits)

lemma binance_items_prefix:
  "map binance_raw items = map Some ts \<Longrightarrow>
   \<exists>k. map funding_time_ms (exec_state (binance_items symb items acc)) =
         map funding_time_ms acc @ take k ts"
proof (induction items arbitrary: ts acc)
  case Nil
  then show ?case by simp
next
  case (Cons item items)
  then obtain t ts' where ts: "ts = t # ts'" by (cases ts) auto
  with Cons.prems have raw: "binance_raw item = Some t"
    and rest: "map binance_raw items = map Some ts'" by auto
  from binance_row_raw [OF raw, of symb] show ?case
  proof
    assume "\<exists>e. binance_row symb item = Inl e"
    then have "map funding_time_ms (exec_state (binance_items symb (item # items) acc)) =
        map funding_time_ms acc @ take 0 ts" by auto
    then show ?thesis ..
  next
    assume "\<exists>row. binance_row symb item = Inr row \<and> funding_time_ms row = t"
    then obtain row where row: "binance_row symb item = Inr row" "funding_time_ms row = t"
      by blast
    from Cons.IH [OF rest, of "acc @ [row]"] obtain k where
      "map funding_time_ms (exec_state (binance_items symb items (acc @ [row]))) =
         map funding_time_ms (acc @ [row]) @ take k ts'" ..
    with row ts have "map funding_time_ms (exec_state (binance_items symb (item # items) acc)) =
        map funding_time_ms acc @ take (Suc k) ts" by simp
    then show ?thesis ..
  qed
qed

lemma binance_last_time_raw:
  "map binance_raw data = map Some ts \<Longrightarrow> data \<noteq> [] \<Longrightarrow> binance_last_time data = Inr c \<Longrightarrow>
   c = last ts"
proof -
  assume m: "map binance_raw data = map Some ts" and ne: "data \<noteq> []"
    and c: "binance_last_time data = Inr c"
  from m have len: "length data = length ts" by (metis length_map)
  with ne have tne: "ts \<noteq> []" by auto
  have "map binance_raw data ! (length data - 1) = map Some ts ! (length data - 1)"
    using m by simp
  then have "binance_raw (last data) = Some (last ts)"
    using ne tne len by (simp add: last_conv_nth)
  with c show ?thesis by (simp add: binance_last_time_def binance_raw_def split: sum.splits)
qed

lemma binance_body_inv:
  assumes inv: "binance_inv st"
    and ok: "\<And>data. srv \<lparr>bn_symbol = symb, bn_startTime = bn_cur_start st, bn_endTime = end_ms,
                bn_limit = 1000\<rparr> = Body (JArr data) \<Longrightarrow>
             page_ok (<) (bn_cur_start st) end_ms (map binance_raw data)"
  shows "sorted_wrt (<) (map funding_time_ms
            (bn_results (flow_state (binance_body symb end_ms srv st))))
       \<and> (\<forall>s. binance_body symb end_ms srv st = Next s \<longrightarrow> binance_inv s)"
proof -
  let ?q = "\<lparr>bn_symbol = symb, bn_startTime = bn_cur_start st, bn_endTime = end_ms,
             bn_limit = 1000\<rparr>"
  from inv have s0: "sorted_wrt (<) (map funding_time_ms (bn_results st))"
    and b0: "\<forall>r \<in> set (bn_results st). funding_time_ms r < bn_cur_start st"
    by (simp_all add: binance_inv_def)
  show ?thesis
  proof (cases "srv ?q")
    case Failed
    with s0 show ?thesis by (simp add: binance_body_def Let_def)
  next
    case (Body j)
    show ?thesis
    proof (cases "\<exists>data. j = JArr data \<and> data \<noteq> []")
      case False
      with Body s0 show ?thesis by (cases j) (auto simp: binance_body_def Let_def)
    next
      case True
      then obtain data where j: "j = JArr data" and ne: "data \<noteq> []" by blast
      from ok [of data] Body j obtain ts where m: "map binance_raw data = map Some ts"
        and sts: "sorted_wrt (<) ts" and w: "\<forall>t \<in> set ts. bn_cur_start st \<le> t \<and> t \<le> end_ms"
        by (auto elim: page_okD)
      from binance_items_prefix [OF m, of symb "bn_results st"] obtain k where
        k: "map funding_time_ms (exec_state (binance_items symb data (bn_results st))) =
            map funding_time_ms (bn_results st) @ take k ts" ..
      have sorted_new: "sorted_wrt (<) (map funding_time_ms (bn_results st) @ take k ts)"
        by (rule sorted_append_take [OF s0 sts, of "bn_cur_start st"]) (use b0 w in auto)
      have bound: "\<forall>t \<in> set (map funding_time_ms (bn_results st) @ take k ts). t < last ts + 1"
      proof
        fix t assume "t \<in> set (map funding_time_ms (bn_results st) @ take k ts)"
        then consider "t \<in> funding_time_ms ` set (bn_results st)" | "t \<in> set ts"
          by (auto dest: in_set_takeD)
        then show "t < last ts + 1"
        proof cases
          case 1
          from m ne have "ts \<noteq> []" by auto
          then have "last ts \<in> set ts" by simp
          with w have "bn_cur_start st \<le> last ts" by blast
          with 1 b0 show ?thesis by fastforce
        next
          case 2
          from strict_sorted_le_last_int [OF sts 2] show ?thesis by simp
        qed
      qed
      show ?thesis
      proof (cases "binance_items symb data (bn_results st)")
        case (Raised e rs)
        with k sorted_new Body j ne show ?thesis by (simp add: binance_body_def Let_def)
      next
        case (Done rs)
        with k have rs: "map funding_time_ms rs = map funding_time_ms (bn_results st) @ take k ts"
          by simp
        show ?thesis
        proof (cases "binance_last_time data")
          case (Inl e)
          with Done rs sorted_new Body j ne show ?thesis by (simp add: binance_body_def Let_def)
        next
          case (Inr c)
          from binance_last_time_raw [OF m ne Inr] have c: "c = last ts" .
          have "\<forall>r \<in> set rs. funding_time_ms r < c + 1"
            using bound rs c by (metis image_eqI list.set_map)
          with Done rs sorted_new Body j ne Inr show ?thesis
            by (simp add: binance_body_def binance_inv_def Let_def)
        qed
      qed
    qed
  qed
qed

lemma binance_body_sent:
  "bn_sent (flow_state (binance_body symb end_ms srv st)) =
     bn_sent st @ [\<lparr>bn_symbol = symb, bn_startTime = bn_cur_start st, bn_endTime = end_ms,
                    bn_limit = 1000\<rparr>]"
  by (simp add: binance_body_def Let_def
      split: response.splits json.splits exec.splits sum.splits)

lemma binance_run_sent_prefix:
  "\<exists>new. bn_sent (flow_state (binance_run symb end_ms net st)) = bn_sent st @ new"
proof (induction net arbitrary: st)
  case Nil
  show ?case by simp
next
  case (Cons srv net)
  show ?case
  proof (cases "binance_body symb end_ms srv st")
    case (Break s)
    with binance_body_sent [of symb end_ms srv st] show ?thesis by simp
  next
    case (Next s)
    from Cons [of s] obtain new where
      "bn_sent (flow_state (binance_run symb end_ms net s)) = bn_sent s @ new" ..
    with Next binance_body_sent [of symb end_ms srv st] show ?thesis by simp
  qed
qed

lemma binance_run_sorted:
  assumes "binance_inv st"
    and "bn_sent (flow_state (binance_run symb end_ms net st)) = bn_sent st @ new"
    and "list_all2 binance_answer_ok (take (length new) net) new"
  shows "sorted_wrt (<) (map funding_time_ms
           (bn_results (flow_state (binance_run symb end_ms net st))))"
  using assms
proof (induction net arbitrary: st new)
  case Nil
  then show ?case by (simp add: binance_inv_def)
next
  case (Cons srv net)
  let ?q = "\<lparr>bn_symbol = symb, bn_startTime = bn_cur_start st, bn_endTime = end_ms,
             bn_limit = 1000\<rparr>"
  note bs = binance_body_sent [of symb end_ms srv st]
  have step: "binance_answer_ok srv ?q \<Longrightarrow>
       sorted_wrt (<) (map funding_time_ms
            (bn_results (flow_state (binance_body symb end_ms srv st))))
       \<and> (\<forall>s. binance_body symb end_ms srv st = Next s \<longrightarrow> binance_inv s)"
  proof (rule binance_body_inv [OF Cons.prems(1)])
    fix data
    assume "binance_answer_ok srv ?q" and "srv ?q = Body (JArr data)"
    then show "page_ok (<) (bn_cur_start st) end_ms (map binance_raw data)"
      by (simp add: binance_answer_ok_def binance_page_ok_def)
  qed
  show ?case
  proof (cases "binance_body symb end_ms srv st")
    case (Break s)
    with Cons.prems(2) bs have "new = [?q]" by simp
    with Cons.prems(3) have "binance_answer_ok srv ?q" by simp
    from step [OF this] Break show ?thesis by simp
  next
    case (Next s)
    from binance_run_sent_prefix [of symb end_ms net s] obtain new' where
      n: "bn_sent (flow_state (binance_run symb end_ms net s)) = bn_sent s @ new'" ..
    with Cons.prems(2) bs Next have new: "new = ?q # new'" by simp
    with Cons.prems(3) have ok: "binance_answer_ok srv ?q"
      and rest: "list_all2 binance_answer_ok (take (length new') net) new'" by simp_all
    from step [OF ok] Next have "binance_inv s" by simp
    from Cons.IH [OF this n rest] Next show ?thesis by simp
  qed
qed

lemma fetch_binance_sorted:
  assumes "binance_requests net symb start_ms end_ms = Some reqs"
    and "list_all2 binance_answer_ok (take (length reqs) net) reqs"
    and "fetch_binance_funding net symb start_ms end_ms = Some rows"
  shows "sorted_wrt (<) (map funding_time_ms rows)"
proof -
  let ?run = "binance_run symb end_ms net (binance_init start_ms)"
  have i: "binance_inv (binance_init start_ms)" by (simp add: binance_inv_def binance_init_def)
  from assms(1) have s: "bn_sent (flow_state ?run) = bn_sent (binance_init start_ms) @ reqs"
    by (auto simp: binance_requests_def binance_init_def split: flow.splits)
  from binance_run_sorted [OF i s assms(2)] assms(3) show ?thesis
    by (auto simp: fetch_binance_funding_def split: flow.splits)
qed

lemma sorted_desc_append_take:
  fixes xs ts :: "int list"
  assumes "sorted_wrt (>) xs" and "sorted_wrt (>) ts"
    and "\<forall>a \<in> set xs. c < a" and "\<forall>t \<in> set ts. t \<le> c"
  shows "sorted_wrt (>) (xs @ take k ts)"
proof -
  have "sorted_wrt (>) (take k ts)" using assms(2) by (rule sorted_wrt_take)
  moreover have "\<forall>a \<in> set xs. \<forall>t \<in> set (take k ts). t < a"
    using assms(3,4) by (fastforce dest: in_set_takeD)
  ultimately show ?thesis using assms(1) by (simp add: sorted_wrt_append)
qed

lemma strict_desc_last_le:
  "sorted_wrt (>) ts \<Longrightarrow> t \<in> set ts \<Longrightarrow> (last ts :: int) \<le> t"
  by (induction ts) (auto simp: less_imp_le)

lemma raw_int_Some:
  "raw_int probe = Some t \<Longrightarrow> \<exists>ft. probe = Inr ft \<and> ft \<noteq> JNull \<and> py_int ft = Inr t"
  by (auto simp: raw_int_def split: sum.splits if_splits)

lemma bybit_row_raw:
  assumes "bybit_raw item = Some t" and "10 ^ 12 \<le> t"
  shows "(\<exists>e. bybit_row fromiso symb item = Inl e)
   \<or> (\<exists>row. bybit_row fromiso symb item = Inr (Some row) \<and> funding_time_ms row = t)"
proof -
  from raw_int_Some [OF assms(1) [unfolded bybit_raw_def]] obtain ft where
    ft: "bybit_ft item = Inr ft" "ft \<noteq> JNull" "py_int ft = Inr t" by blast
  with assms(2) show ?thesis
    by (cases "bybit_fr item"; cases "iso_from_ms t") (simp_all add: bybit_row_def int_ms_def)
qed

lemma bybit_items_prefix:
  "map bybit_raw items = map Some ts \<Longrightarrow> \<forall>t \<in> set ts. 10 ^ 12 \<le> t \<Longrightarrow>
   \<exists>k. map funding_time_ms (exec_state (bybit_items fromiso symb items acc)) =
         map funding_time_ms acc @ take k ts"
proof (induction items arbitrary: ts acc)
  case Nil
  then show ?case by simp
next
  case (Cons item items)
  then obtain t ts' where ts: "ts = t # ts'" by (cases ts) auto
  with Cons.prems have raw: "bybit_raw item = Some t" and t: "10 ^ 12 \<le> t"
    and rest: "map bybit_raw items = map Some ts'" "\<forall>t \<in> set ts'. 10 ^ 12 \<le> t" by auto
  from bybit_row_raw [OF raw t, of fromiso symb] show ?case
  proof
    assume "\<exists>e. bybit_row fromiso symb item = Inl e"
    then have "map funding_time_ms (exec_state (bybit_items fromiso symb (item # items) acc)) =
        map funding_time_ms acc @ take 0 ts" by auto
    then show ?thesis ..
  next
    assume "\<exists>row. bybit_row fromiso symb item = Inr (Some row) \<and> funding_time_ms row = t"
    then obtain row where row: "bybit_row fromiso symb item = Inr (Some row)"
      "funding_time_ms row = t" by blast
    from Cons.IH [OF rest, of "acc @ [row]"] obtain k where
      "map funding_time_ms (exec_state (bybit_items fromiso symb items (acc @ [row]))) =
         map funding_time_ms (acc @ [row]) @ take k ts'" ..
    with row ts have
      "map funding_time_ms (exec_state (bybit_items fromiso symb (item # items) acc)) =
        map funding_time_ms acc @ take (Suc k) ts" by simp
    then show ?thesis ..
  qed
qed

lemma int_of_string_empty: "int_of_string [] = Inl ValueError"
  by (simp add: int_of_string_def strip_def)

lemma py_int_falsy: "\<not> truthy v \<Longrightarrow> py_int v = Inr c \<Longrightarrow> c = 0"
  by (cases v) (auto simp: int_of_string_empty split: if_splits)

lemma bybit_cursor_le:
  assumes "bybit_raw item = Some t" and "0 \<le> t"
    and "dict_get item ''fundingRateTimestamp'' = Inr v" and "py_int v = Inr c"
  shows "c \<le> t"
proof -
  from raw_int_Some [OF assms(1) [unfolded bybit_raw_def]] obtain ft where
    ft: "bybit_ft item = Inr ft" "py_int ft = Inr t" by blast
  show ?thesis
  proof (cases "truthy v")
    case True
    with assms(3) ft(1) have "ft = v" by (simp add: bybit_ft_def)
    with ft(2) assms(4) show ?thesis by simp
  next
    case False
    from py_int_falsy [OF False assms(4)] assms(2) show ?thesis by simp
  qed
qed

lemma bybit_last_time_le:
  assumes m: "map bybit_raw data = map Some ts" and ne: "data \<noteq> []"
    and pos: "\<forall>t \<in> set ts. 0 \<le> t" and c: "bybit_last_time data = Inr c"
  shows "c \<le> last ts"
proof -
  from m have len: "length data = length ts" by (metis length_map)
  with ne have tne: "ts \<noteq> []" by auto
  have "map bybit_raw data ! (length data - 1) = map Some ts ! (length data - 1)"
    using m by simp
  then have raw: "bybit_raw (last data) = Some (last ts)"
    using ne tne len by (simp add: last_conv_nth)
  from tne pos have p: "0 \<le> last ts" by simp
  from c obtain v where "dict_get (last data) ''fundingRateTimestamp'' = Inr v" "py_int v = Inr c"
    by (auto simp: bybit_last_time_def split: sum.splits)
  from bybit_cursor_le [OF raw p this] show ?thesis .
qed

lemma bybit_fr_not_dict: "\<forall>kvs. x \<noteq> JObj kvs \<Longrightarrow> bybit_fr x = Inl AttributeError"
  by (cases x) (simp_all add: bybit_fr_def)

lemma bybit_row_not_dict:
  "\<forall>kvs. x \<noteq> JObj kvs \<Longrightarrow> bybit_row fromiso symb x = Inl AttributeError"
  by (simp add: bybit_row_def bybit_fr_not_dict)

lemma bybit_body_not_list:
  assumes "srv \<lparr>by_category = ''linear'', by_symbol = symb, by_startTime = start_ts,
               by_endTime = by_cur_end st, by_limit = 200\<rparr> = Body j"
    and "\<forall>data. bybit_lst j \<noteq> JArr data"
  shows "\<exists>s. bybit_body fromiso symb start_ts srv st = Break s \<and> by_results s = by_results st"
proof (cases "bybit_lst j")
  case (JStr s)
  show ?thesis
  proof (cases s)
    case Nil
    with JStr assms(1) show ?thesis by (simp add: bybit_body_def Let_def)
  next
    case (Cons c cs)
    with JStr assms(1) show ?thesis
      by (simp add: bybit_body_def Let_def bybit_row_not_dict)
  qed
next
  case (JObj kvs)
  show ?thesis
  proof (cases kvs)
    case Nil
    with JObj assms(1) show ?thesis by (simp add: bybit_body_def Let_def)
  next
    case (Cons kv rest)
    with JObj assms(1) show ?thesis
      by (simp add: bybit_body_def Let_def bybit_row_not_dict)
  qed
next
  case (JArr data)
  with assms(2) show ?thesis by simp
qed (use assms(1) in \<open>simp_all add: bybit_body_def Let_def\<close>)


lemma bybit_body_inv:
  assumes inv: "bybit_inv st" and big: "10 ^ 12 \<le> start_ts"
    and ok: "\<And>j data. srv \<lparr>by_category = ''linear'', by_symbol = symb,
                by_startTime = start_ts, by_endTime = by_cur_end st, by_limit = 200\<rparr> = Body j
              \<Longrightarrow> bybit_lst j = JArr data
              \<Longrightarrow> page_ok (>) start_ts (by_cur_end st) (map bybit_raw data)"
  shows "sorted_wrt (>) (map funding_time_ms
            (by_results (flow_state (bybit_body fromiso symb start_ts srv st))))
       \<and> (\<forall>s. bybit_body fromiso symb start_ts srv st = Next s \<longrightarrow> bybit_inv s)"
proof -
  let ?q = "\<lparr>by_category = ''linear'', by_symbol = symb, by_startTime = start_ts,
             by_endTime = by_cur_end st, by_limit = 200\<rparr>"
  from inv have s0: "sorted_wrt (>) (map funding_time_ms (by_results st))"
    and b0: "\<forall>r \<in> set (by_results st). by_cur_end st < funding_time_ms r"
    by (simp_all add: bybit_inv_def)
  show ?thesis
  proof (cases "srv ?q")
    case Failed
    with s0 show ?thesis by (simp add: bybit_body_def)
  next
    case (Body j)
    show ?thesis
    proof (cases "\<exists>data. bybit_lst j = JArr data")
      case False
      then have nl: "\<forall>data. bybit_lst j \<noteq> JArr data" by blast
      have "\<exists>s. bybit_body fromiso symb start_ts srv st = Break s
                \<and> by_results s = by_results st"
        by (rule bybit_body_not_list [OF _ nl]) (rule Body)
      with s0 show ?thesis by auto
    next
      case True
      then obtain data where j: "bybit_lst j = JArr data" by blast
      show ?thesis
      proof (cases "data = []")
        case True
        with Body j s0 show ?thesis by (simp add: bybit_body_def Let_def)
      next
        case ne: False
        from ok [OF Body j] obtain ts where m: "map bybit_raw data = map Some ts"
          and sts: "sorted_wrt (>) ts"
          and w: "\<forall>t \<in> set ts. start_ts \<le> t \<and> t \<le> by_cur_end st"
          by (auto elim: page_okD)
        from w big have bigs: "\<forall>t \<in> set ts. 10 ^ 12 \<le> t" by fastforce
        then have pos: "\<forall>t \<in> set ts. 0 \<le> t" by fastforce
        from bybit_items_prefix [OF m bigs, of fromiso symb "by_results st"] obtain k where
          k: "map funding_time_ms (exec_state (bybit_items fromiso symb data (by_results st))) =
              map funding_time_ms (by_results st) @ take k ts" ..
        have sorted_new: "sorted_wrt (>) (map funding_time_ms (by_results st) @ take k ts)"
          by (rule sorted_desc_append_take [OF s0 sts, of "by_cur_end st"]) (use b0 w in auto)
        from m ne have tne: "ts \<noteq> []" by auto
        have bound: "\<forall>t \<in> set (map funding_time_ms (by_results st) @ take k ts). last ts \<le> t"
        proof
          fix t assume "t \<in> set (map funding_time_ms (by_results st) @ take k ts)"
          then consider "t \<in> funding_time_ms ` set (by_results st)" | "t \<in> set ts"
            by (auto dest: in_set_takeD)
          then show "last ts \<le> t"
          proof cases
            case 1
            from tne have "last ts \<in> set ts" by simp
            with w have "last ts \<le> by_cur_end st" by blast
            with 1 b0 show ?thesis by fastforce
          next
            case 2
            from strict_desc_last_le [OF sts 2] show ?thesis .
          qed
        qed
        show ?thesis
        proof (cases "bybit_items fromiso symb data (by_results st)")
          case (Raised e rs)
          with k sorted_new Body j ne show ?thesis by (simp add: bybit_body_def Let_def)
        next
          case (Done rs)
          with k have rs:
            "map funding_time_ms rs = map funding_time_ms (by_results st) @ take k ts"
            by simp
          show ?thesis
          proof (cases "bybit_last_time data")
            case (Inl e)
            with Done rs sorted_new Body j ne show ?thesis by (simp add: bybit_body_def Let_def)
          next
            case (Inr c)
            from bybit_last_time_le [OF m ne pos Inr] have c: "c \<le> last ts" .
            have "\<forall>r \<in> set rs. c - 1 < funding_time_ms r"
            proof
              fix r assume "r \<in> set rs"
              then have "funding_time_ms r \<in> set (map funding_time_ms rs)" by simp
              with rs bound have "last ts \<le> funding_time_ms r" by metis
              with c show "c - 1 < funding_time_ms r" by simp
            qed
            with Done rs sorted_new Body j ne Inr show ?thesis
              by (simp add: bybit_body_def bybit_inv_def Let_def)
          qed
        qed
      qed
    qed
  qed
qed

lemma bybit_body_sent:
  "by_sent (flow_state (bybit_body fromiso symb start_ts srv st)) =
     by_sent st @ [\<lparr>by_category = ''linear'', by_symbol = symb, by_startTime = start_ts,
                    by_endTime = by_cur_end st, by_limit = 200\<rparr>]"
  by (simp add: bybit_body_def Let_def
      split: response.splits json.splits exec.splits sum.splits)

lemma bybit_run_sent_prefix:
  "\<exists>new. by_sent (flow_state (bybit_run fromiso symb start_ts net st)) = by_sent st @ new"
proof (induction net arbitrary: st)
  case Nil
  show ?case by simp
next
  case (Cons srv net)
  show ?case
  proof (cases "bybit_body fromiso symb start_ts srv st")
    case (Break s)
    with bybit_body_sent [of fromiso symb start_ts srv st] show ?thesis by simp
  next
    case (Next s)
    from Cons [of s] obtain new where
      "by_sent (flow_state (bybit_run fromiso symb start_ts net s)) = by_sent s @ new" ..
    with Next bybit_body_sent [of fromiso symb start_ts srv st] show ?thesis by simp
  qed
qed

lemma bybit_run_sorted:
  assumes "bybit_inv st" and "10 ^ 12 \<le> start_ts"
    and "by_sent (flow_state (bybit_run fromiso symb start_ts net st)) = by_sent st @ new"
    and "list_all2 bybit_answer_ok (take (length new) net) new"
  shows "sorted_wrt (>) (map funding_time_ms
           (by_results (flow_state (bybit_run fromiso symb start_ts net st))))"
  using assms
proof (induction net arbitrary: st new)
  case Nil
  then show ?case by (simp add: bybit_inv_def)
next
  case (Cons srv net)
  let ?q = "\<lparr>by_category = ''linear'', by_symbol = symb, by_startTime = start_ts,
             by_endTime = by_cur_end st, by_limit = 200\<rparr>"
  note bs = bybit_body_sent [of fromiso symb start_ts srv st]
  have step: "bybit_answer_ok srv ?q \<Longrightarrow>
       sorted_wrt (>) (map funding_time_ms
            (by_results (flow_state (bybit_body fromiso symb start_ts srv st))))
       \<and> (\<forall>s. bybit_body fromiso symb start_ts srv st = Next s \<longrightarrow> bybit_inv s)"
  proof (rule bybit_body_inv [OF Cons.prems(1,2)])
    fix j data
    assume "bybit_answer_ok srv ?q" and "srv ?q = Body j" and "bybit_lst j = JArr data"
    then show "page_ok (>) start_ts (by_cur_end st) (map bybit_raw data)"
      by (simp add: bybit_answer_ok_def bybit_page_ok_def)
  qed
  show ?case
  proof (cases "bybit_body fromiso symb start_ts srv st")
    case (Break s)
    with Cons.prems(3) bs have "new = [?q]" by simp
    with Cons.prems(4) have "bybit_answer_ok srv ?q" by simp
    from step [OF this] Break show ?thesis by simp
  next
    case (Next s)
    from bybit_run_sent_prefix [of fromiso symb start_ts net s] obtain new' where
      n: "by_sent (flow_state (bybit_run fromiso symb start_ts net s)) = by_sent s @ new'" ..
    with Cons.prems(3) bs Next have new: "new = ?q # new'" by simp
    with Cons.prems(4) have ok: "bybit_answer_ok srv ?q"
      and rest: "list_all2 bybit_answer_ok (take (length new') net) new'" by simp_all
    from step [OF ok] Next have "bybit_inv s" by simp
    from Cons.IH [OF this Cons.prems(2) n rest] Next show ?thesis by simp
  qed
qed

lemma fetch_bybit_sorted:
  assumes "10 ^ 12 \<le> start_ts"
    and "bybit_requests fromiso net symb start_ts end_ts = Some reqs"
    and "list_all2 bybit_answer_ok (take (length reqs) net) reqs"
    and "fetch_bybit_funding_v5 fromiso net symb start_ts end_ts = Some rows"
  shows "sorted_wrt (<) (map funding_time_ms (bybit_main_rows rows))"
proof -
  let ?run = "bybit_run fromiso symb start_ts net (bybit_init end_ts)"
  have i: "bybit_inv (bybit_init end_ts)" by (simp add: bybit_inv_def bybit_init_def)
  from assms(2) have s: "by_sent (flow_state ?run) = by_sent (bybit_init end_ts) @ reqs"
    by (auto simp: bybit_requests_def bybit_init_def split: flow.splits)
  from bybit_run_sorted [OF i assms(1) s assms(3)] assms(4)
  have "sorted_wrt (>) (map funding_time_ms rows)"
    by (auto simp: fetch_bybit_funding_v5_def split: flow.splits)
  then have "sorted_wrt (<) (map funding_time_ms (rev rows))"
    unfolding rev_map [symmetric] sorted_wrt_rev_gt .
  then show ?thesis by (simp add: bybit_main_rows_def)
qed

lemma hyper_row_raw:
  assumes "hyper_raw item = Some t" and "10 ^ 12 \<le> t"
  shows "(\<exists>e. hyper_row symb item = Inl e)
   \<or> (\<exists>row. hyper_row symb item = Inr (Some row) \<and> funding_time_ms row = t)"
proof -
  from raw_int_Some [OF assms(1) [unfolded hyper_raw_def]] obtain ft where
    ft: "hyper_ft item = Inr ft" "ft \<noteq> JNull" "py_int ft = Inr t" by blast
  with assms(2) show ?thesis
    by (cases "hyper_fr item"; cases "iso_from_ms t") (simp_all add: hyper_row_def int_ms_def)
qed

lemma hyper_items_prefix:
  "map hyper_raw items = map Some ts \<Longrightarrow> \<forall>t \<in> set ts. 10 ^ 12 \<le> t \<Longrightarrow>
   \<exists>k. map funding_time_ms (exec_state (hyper_items symb items acc)) =
         map funding_time_ms acc @ take k ts"
proof (induction items arbitrary: ts acc)
  case Nil
  then show ?case by simp
next
  case (Cons item items)
  then obtain t ts' where ts: "ts = t # ts'" by (cases ts) auto
  with Cons.prems have raw: "hyper_raw item = Some t" and t: "10 ^ 12 \<le> t"
    and rest: "map hyper_raw items = map Some ts'" "\<forall>t \<in> set ts'. 10 ^ 12 \<le> t" by auto
  from hyper_row_raw [OF raw t, of symb] show ?case
  proof
    assume "\<exists>e. hyper_row symb item = Inl e"
    then have "map funding_time_ms (exec_state (hyper_items symb (item # items) acc)) =
        map funding_time_ms acc @ take 0 ts" by auto
    then show ?thesis ..
  next
    assume "\<exists>row. hyper_row symb item = Inr (Some row) \<and> funding_time_ms row = t"
    then obtain row where row: "hyper_row symb item = Inr (Some row)"
      "funding_time_ms row = t" by blast
    from Cons.IH [OF rest, of "acc @ [row]"] obtain k where
      "map funding_time_ms (exec_state (hyper_items symb items (acc @ [row]))) =
         map funding_time_ms (acc @ [row]) @ take k ts'" ..
    with row ts have
      "map funding_time_ms (exec_state (hyper_items symb (item # items) acc)) =
        map funding_time_ms acc @ take (Suc k) ts" by simp
    then show ?thesis ..
  qed
qed

lemma hyper_last_time_page:
  assumes m: "map hyper_raw data = map Some ts" and ne: "data \<noteq> []"
  shows "hyper_last_time data = Inr (last ts)"
proof -
  from m have len: "length data = length ts" by (metis length_map)
  with ne have tne: "ts \<noteq> []" by auto
  have "map hyper_raw data ! (length data - 1) = map Some ts ! (length data - 1)"
    using m by simp
  then have raw: "hyper_raw (last data) = Some (last ts)"
    using ne tne len by (simp add: last_conv_nth)
  from hyper_last_time_raw_last [OF ne raw] show ?thesis .
qed

lemma hyper_body_inv:
  assumes inv: "hyper_inv st" and guard: "hl_cur_start st \<le> end_ms"
    and ok: "\<And>data. srv \<lparr>hl_type = ''fundingHistory'', hl_coin = coin,
                hl_startTime = hl_cur_start st,
                hl_endTime = min end_ms (hl_cur_start st + window_ms - 1)\<rparr> = Body (JArr data)
              \<Longrightarrow> page_ok (<) (hl_cur_start st)
                    (min end_ms (hl_cur_start st + window_ms - 1)) (map hyper_raw data)"
  shows "sorted_wrt (<) (map funding_time_ms
            (hl_results (flow_state (hyper_body symb coin end_ms srv st))))
       \<and> (\<forall>s. hyper_body symb coin end_ms srv st = Next s \<longrightarrow> hyper_inv s)"
proof -
  let ?e = "min end_ms (hl_cur_start st + window_ms - 1)"
  let ?q = "\<lparr>hl_type = ''fundingHistory'', hl_coin = coin, hl_startTime = hl_cur_start st,
             hl_endTime = ?e\<rparr>"
  from inv have s0: "sorted_wrt (<) (map funding_time_ms (hl_results st))"
    and b0: "\<forall>r \<in> set (hl_results st). funding_time_ms r < hl_cur_start st"
    and big: "10 ^ 12 \<le> hl_cur_start st"
    by (simp_all add: hyper_inv_def)
  from guard have ce: "hl_cur_start st \<le> ?e" by (simp add: window_ms_def)
  have skip: "hyper_inv (st\<lparr>hl_sent := hl_sent st @ [?q], hl_cur_start := ?e + 1\<rparr>)"
    using s0 b0 big ce by (auto simp: hyper_inv_def)
  show ?thesis
  proof (cases "srv ?q")
    case Failed
    with s0 show ?thesis by (simp add: hyper_body_def Let_def)
  next
    case (Body j)
    show ?thesis
    proof (cases "\<exists>data. j = JArr data \<and> data \<noteq> []")
      case False
      with Body s0 skip show ?thesis by (cases j) (auto simp: hyper_body_def Let_def)
    next
      case True
      then obtain data where j: "j = JArr data" and ne: "data \<noteq> []" by blast
      from ok [of data] Body j obtain ts where m: "map hyper_raw data = map Some ts"
        and sts: "sorted_wrt (<) ts"
        and w: "\<forall>t \<in> set ts. hl_cur_start st \<le> t \<and> t \<le> ?e"
        by (auto elim: page_okD)
      from w big have bigs: "\<forall>t \<in> set ts. 10 ^ 12 \<le> t" by fastforce
      from hyper_items_prefix [OF m bigs, of symb "hl_results st"] obtain k where
        k: "map funding_time_ms (exec_state (hyper_items symb data (hl_results st))) =
            map funding_time_ms (hl_results st) @ take k ts" ..
      have sorted_new: "sorted_wrt (<) (map funding_time_ms (hl_results st) @ take k ts)"
        by (rule sorted_append_take [OF s0 sts, of "hl_cur_start st"]) (use b0 w in auto)
      from m ne have tne: "ts \<noteq> []" by auto
      then have "last ts \<in> set ts" by simp
      with w have lb: "hl_cur_start st \<le> last ts" by blast
      have bound: "\<forall>t \<in> set (map funding_time_ms (hl_results st) @ take k ts). t < last ts + 1"
      proof
        fix t assume "t \<in> set (map funding_time_ms (hl_results st) @ take k ts)"
        then consider "t \<in> funding_time_ms ` set (hl_results st)" | "t \<in> set ts"
          by (auto dest: in_set_takeD)
        then show "t < last ts + 1"
        proof cases
          case 1
          with b0 lb show ?thesis by fastforce
        next
          case 2
          from strict_sorted_le_last_int [OF sts 2] show ?thesis by simp
        qed
      qed
      note lt = hyper_last_time_page [OF m ne]
      show ?thesis
      proof (cases "hyper_items symb data (hl_results st)")
        case (Raised e rs)
        with k sorted_new Body j ne show ?thesis by (simp add: hyper_body_def Let_def)
      next
        case (Done rs)
        with k have rs: "map funding_time_ms rs = map funding_time_ms (hl_results st) @ take k ts"
          by simp
        have "\<forall>r \<in> set rs. funding_time_ms r < last ts + 1"
          using bound rs by (metis image_eqI list.set_map)
        moreover from big lb have "10 ^ 12 \<le> last ts + 1" by simp
        ultimately show ?thesis
          using Done rs sorted_new Body j ne lt
          by (simp add: hyper_body_def hyper_inv_def Let_def)
      qed
    qed
  qed
qed

lemma hyper_run_sent_prefix:
  "\<exists>new. hl_sent (flow_state (hyper_run symb coin end_ms net st)) = hl_sent st @ new"
proof (induction net arbitrary: st)
  case Nil
  show ?case by simp
next
  case (Cons srv net)
  show ?case
  proof (cases "hl_cur_start st \<le> end_ms")
    case False
    then show ?thesis by simp
  next
    case True
    show ?thesis
    proof (cases "hyper_body symb coin end_ms srv st")
      case (Break s)
      with True hyper_body_sent [of symb coin end_ms srv st] show ?thesis by simp
    next
      case (Next s)
      from Cons [of s] obtain new where
        "hl_sent (flow_state (hyper_run symb coin end_ms net s)) = hl_sent s @ new" ..
      with True Next hyper_body_sent [of symb coin end_ms srv st] show ?thesis by simp
    qed
  qed
qed

lemma hyper_run_sorted:
  assumes "hyper_inv st"
    and "hl_sent (flow_state (hyper_run symb coin end_ms net st)) = hl_sent st @ new"
    and "list_all2 hyper_answer_ok (take (length new) net) new"
  shows "sorted_wrt (<) (map funding_time_ms
           (hl_results (flow_state (hyper_run symb coin end_ms net st))))"
  using assms
proof (induction net arbitrary: st new)
  case Nil
  then show ?case by (simp add: hyper_inv_def)
next
  case (Cons srv net)
  show ?case
  proof (cases "hl_cur_start st \<le> end_ms")
    case False
    with Cons.prems(1) show ?thesis by (simp add: hyper_inv_def)
  next
    case True
    let ?q = "\<lparr>hl_type = ''fundingHistory'', hl_coin = coin, hl_startTime = hl_cur_start st,
               hl_endTime = min end_ms (hl_cur_start st + window_ms - 1)\<rparr>"
    note bs = hyper_body_sent [of symb coin end_ms srv st]
    have step: "hyper_answer_ok srv ?q \<Longrightarrow>
         sorted_wrt (<) (map funding_time_ms
              (hl_results (flow_state (hyper_body symb coin end_ms srv st))))
         \<and> (\<forall>s. hyper_body symb coin end_ms srv st = Next s \<longrightarrow> hyper_inv s)"
    proof (rule hyper_body_inv [OF Cons.prems(1) True])
      fix data
      assume "hyper_answer_ok srv ?q" and "srv ?q = Body (JArr data)"
      then show "page_ok (<) (hl_cur_start st)
          (min end_ms (hl_cur_start st + window_ms - 1)) (map hyper_raw data)"
        by (simp add: hyper_answer_ok_def hyper_page_ok_def)
    qed
    show ?thesis
    proof (cases "hyper_body symb coin end_ms srv st")
      case (Break s)
      with Cons.prems(2) bs True have "new = [?q]" by simp
      with Cons.prems(3) have "hyper_answer_ok srv ?q" by simp
      from step [OF this] Break True show ?thesis by simp
    next
      case (Next s)
      from hyper_run_sent_prefix [of symb coin end_ms net s] obtain new' where
        n: "hl_sent (flow_state (hyper_run symb coin end_ms net s)) = hl_sent s @ new'" ..
      with Cons.prems(2) bs Next True have new: "new = ?q # new'" by simp
      with Cons.prems(3) have ok: "hyper_answer_ok srv ?q"
        and rest: "list_all2 hyper_answer_ok (take (length new') net) new'" by simp_all
      from step [OF ok] Next have "hyper_inv s" by simp
      from Cons.IH [OF this n rest] Next True show ?thesis by simp
    qed
  qed
qed

lemma dedup_sorted_strict:
  assumes "sorted_wrt (<) (map funding_time_ms results)"
    and "dedup_sorted results = Inr rows"
  shows "sorted_wrt (<) (map funding_time_ms rows)"
proof -
  note p = dedup_sorted_props [OF assms(2)]
  from assms(1) have "distinct (map funding_time_ms results)"
    by (simp add: strict_sorted_iff)
  then have "inj_on funding_time_ms (set results)" by (simp add: distinct_map)
  from this p(3) have inj: "inj_on funding_time_ms (set rows)" by (rule inj_on_subset)
  from p(2) have "distinct rows" by (simp add: distinct_map)
  with inj have "distinct (map funding_time_ms rows)" by (simp add: distinct_map)
  with p(1) show ?thesis by (simp add: strict_sorted_iff)
qed

lemma fetch_hyper_sorted:
  assumes "10 ^ 12 \<le> start_ms"
    and "hyper_requests net symb start_ms end_ms = Some reqs"
    and "list_all2 hyper_answer_ok (take (length reqs) net) reqs"
    and "fetch_hyper_funding_for_symbol net symb start_ms end_ms = Some (Inr rows)"
  shows "sorted_wrt (<) (map funding_time_ms rows)"
proof -
  let ?run = "hyper_run symb (extract_coin_from_symbol symb) end_ms net (hyper_init start_ms)"
  have i: "hyper_inv (hyper_init start_ms)"
    using assms(1) by (simp add: hyper_inv_def hyper_init_def)
  from assms(2) have s: "hl_sent (flow_state ?run) = hl_sent (hyper_init start_ms) @ reqs"
    by (auto simp: hyper_requests_def hyper_init_def split: flow.splits)
  note r = hyper_run_sorted [OF i s assms(3)]
  from assms(4) have "dedup_sorted (hl_results (flow_state ?run)) = Inr rows"
    by (auto simp: fetch_hyper_funding_for_symbol_def split: flow.splits)
  from dedup_sorted_strict [OF r this] show ?thesis .
qed

text \<open>Rows carry their exchange and symbol; the groups that \<^verbatim>\<open>main\<close> writes.\<close>

lemma binance_items_tagged:
  "list_all (tagged ''binance'' symb) acc \<Longrightarrow>
   list_all (tagged ''binance'' symb) (exec_state (binance_items symb items acc))"
  by (induction items arbitrary: acc)
     (auto simp: binance_row_def tagged_def split: sum.splits)

lemma bybit_items_tagged:
  "list_all (tagged ''bybit'' symb) acc \<Longrightarrow>
   list_all (tagged ''bybit'' symb) (exec_state (bybit_items fromiso symb items acc))"
  by (induction items arbitrary: acc)
     (auto simp: bybit_row_def tagged_def split: sum.splits option.splits if_splits)

lemma hyper_items_tagged:
  "list_all (tagged ''hyperliquid'' symb) acc \<Longrightarrow>
   list_all (tagged ''hyperliquid'' symb) (exec_state (hyper_items symb items acc))"
  by (induction items arbitrary: acc)
     (auto simp: hyper_row_def tagged_def split: sum.splits option.splits if_splits)

lemma binance_items_tagged_Done:
  "binance_items symb items acc = Done rs \<Longrightarrow> list_all (tagged ''binance'' symb) acc \<Longrightarrow>
   list_all (tagged ''binance'' symb) rs"
  using binance_items_tagged [of symb acc items] by simp

lemma binance_items_tagged_Raised:
  "binance_items symb items acc = Raised e rs \<Longrightarrow> list_all (tagged ''binance'' symb) acc \<Longrightarrow>
   list_all (tagged ''binance'' symb) rs"
  using binance_items_tagged [of symb acc items] by simp

lemma binance_body_tagged:
  assumes "list_all (tagged ''binance'' symb) (bn_results st)"
  shows "list_all (tagged ''binance'' symb)
           (bn_results (flow_state (binance_body symb end_ms srv st)))"
  using assms
  by (auto simp: binance_body_def Let_def split: response.splits json.splits exec.splits sum.splits
      dest: binance_items_tagged_Done binance_items_tagged_Raised)

lemma bybit_items_tagged_Done:
  "bybit_items fromiso symb items acc = Done rs \<Longrightarrow> list_all (tagged ''bybit'' symb) acc \<Longrightarrow>
   list_all (tagged ''bybit'' symb) rs"
  using bybit_items_tagged [of symb acc fromiso items] by simp

lemma bybit_items_tagged_Raised:
  "bybit_items fromiso symb items acc = Raised e rs \<Longrightarrow> list_all (tagged ''bybit'' symb) acc \<Longrightarrow>
   list_all (tagged ''bybit'' symb) rs"
  using bybit_items_tagged [of symb acc fromiso items] by simp

lemma bybit_body_tagged:
  assumes "list_all (tagged ''bybit'' symb) (by_results st)"
  shows "list_all (tagged ''bybit'' symb)
           (by_results (flow_state (bybit_body fromiso symb start_ts srv st)))"
  using assms
  by (auto simp: bybit_body_def Let_def split: response.splits exec.splits sum.splits
      dest: bybit_items_tagged_Done bybit_items_tagged_Raised)

lemma hyper_items_tagged_Done:
  "hyper_items symb items acc = Done rs \<Longrightarrow> list_all (tagged ''hyperliquid'' symb) acc \<Longrightarrow>
   list_all (tagged ''hyperliquid'' symb) rs"
  using hyper_items_tagged [of symb acc items] by simp

lemma hyper_items_tagged_Raised:
  "hyper_items symb items acc = Raised e rs \<Longrightarrow> list_all (tagged ''hyperliquid'' symb) acc \<Longrightarrow>
   list_all (tagged ''hyperliquid'' symb) rs"
  using hyper_items_tagged [of symb acc items] by simp

lemma hyper_body_tagged:
  assumes "list_all (tagged ''hyperliquid'' symb) (hl_results st)"
  shows "list_all (tagged ''hyperliquid'' symb)
           (hl_results (flow_state (hyper_body symb coin end_ms srv st)))"
  using assms
  by (auto simp: hyper_body_def Let_def split: response.splits json.splits exec.splits sum.splits
      dest: hyper_items_tagged_Done hyper_items_tagged_Raised)

lemma binance_run_tagged:
  "list_all (tagged ''binance'' symb) (bn_results st) \<Longrightarrow>
   list_all (tagged ''binance'' symb) (bn_results (flow_state (binance_run symb end_ms net st)))"
proof (induction net arbitrary: st)
  case Nil
  then show ?case by simp
next
  case (Cons srv net)
  from binance_body_tagged [OF Cons.prems, of end_ms srv] Cons.IH show ?case
    by (cases "binance_body symb end_ms srv st") simp_all
qed

lemma bybit_run_tagged:
  "list_all (tagged ''bybit'' symb) (by_results st) \<Longrightarrow>
   list_all (tagged ''bybit'' symb)
     (by_results (flow_state (bybit_run fromiso symb start_ts net st)))"
proof (induction net arbitrary: st)
  case Nil
  then show ?case by simp
next
  case (Cons srv net)
  from bybit_body_tagged [OF Cons.prems, of fromiso start_ts srv] Cons.IH show ?case
    by (cases "bybit_body fromiso symb start_ts srv st") simp_all
qed

lemma hyper_run_tagged:
  "list_all (tagged ''hyperliquid'' symb) (hl_results st) \<Longrightarrow>
   list_all (tagged ''hyperliquid'' symb)
     (hl_results (flow_state (hyper_run symb coin end_ms net st)))"
proof (induction net arbitrary: st)
  case Nil
  then show ?case by simp
next
  case (Cons srv net)
  from hyper_body_tagged [OF Cons.prems, of coin end_ms srv] Cons.IH Cons.prems show ?case
    by (cases "hyper_body symb coin end_ms srv st") simp_all
qed

lemma fetch_binance_tagged:
  "fetch_binance_funding net symb start_ms end_ms = Some rows \<Longrightarrow>
   list_all (tagged ''binance'' symb) (main_rows rows)"
  using binance_run_tagged [of symb "binance_init start_ms" end_ms net]
  by (auto simp: fetch_binance_funding_def binance_init_def main_rows_def split: flow.splits)

lemma fetch_bybit_tagged:
  "fetch_bybit_funding_v5 fromiso net symb start_ts end_ts = Some rows \<Longrightarrow>
   list_all (tagged ''bybit'' symb) (bybit_main_rows rows)"
  using bybit_run_tagged [of symb "bybit_init end_ts" fromiso start_ts net]
  by (auto simp: fetch_bybit_funding_v5_def bybit_init_def bybit_main_rows_def list_all_iff
      split: flow.splits)

lemma fetch_hyper_tagged:
  assumes "fetch_hyper_funding_for_symbol net symb start_ms end_ms = Some (Inr rows)"
  shows "list_all (tagged ''hyperliquid'' symb) (main_rows rows)"
proof -
  let ?run = "hyper_run symb (extract_coin_from_symbol symb) end_ms net (hyper_init start_ms)"
  from assms have d: "dedup_sorted (hl_results (flow_state ?run)) = Inr rows"
    by (auto simp: fetch_hyper_funding_for_symbol_def split: flow.splits)
  have "list_all (tagged ''hyperliquid'' symb) (hl_results (flow_state ?run))"
    by (rule hyper_run_tagged) (simp add: hyper_init_def)
  with dedup_sorted_props(3) [OF d] show ?thesis
    by (auto simp: list_all_iff main_rows_def)
qed

lemma by_sym_main_all_rows:
  assumes "distinct syms" and "\<forall>s \<in> set syms. list_all (tagged ex s) (added s)"
  shows "by_sym (main_all_rows added syms) symb = (if symb \<in> set syms then added symb else [])"
  using assms
proof (induction syms)
  case Nil
  show ?case by (simp add: by_sym_def main_all_rows_def)
next
  case (Cons a syms)
  from Cons.prems have t: "list_all (tagged ex a) (added a)" by simp
  have f: "filter (\<lambda>r. symbol r = symb) (added a) = (if a = symb then added a else [])"
    using t by (auto simp: list_all_iff tagged_def filter_empty_conv intro: filter_True)
  from Cons.prems have "by_sym (main_all_rows added syms) symb
      = (if symb \<in> set syms then added symb else [])"
    by (intro Cons.IH) simp_all
  with f Cons.prems(1) show ?case by (auto simp: by_sym_def main_all_rows_def)
qed

lemma main_all_rows_exchange:
  "\<forall>s \<in> set syms. list_all (tagged ex s) (added s) \<Longrightarrow>
   list_all (\<lambda>r. exchange r = ex) (main_all_rows added syms)"
  by (induction syms) (auto simp: main_all_rows_def list_all_iff tagged_def)

lemma grouped_one_exchange:
  "list_all (\<lambda>r. exchange r = ex) rows \<Longrightarrow>
   grouped rows (ex', symb) = (if ex' = ex then by_sym rows symb else [])"
  by (induction rows) (auto simp: grouped_def by_sym_def)

lemma grouped_append: "grouped (xs @ ys) key = grouped xs key @ grouped ys key"
  by (simp add: grouped_def)

lemma main_rows_id: "main_rows rows = rows"
  by (simp add: main_rows_def)

lemma sorted_group:
  assumes "distinct syms" and "\<forall>s \<in> set syms. list_all (tagged ex s) (added s)"
    and "\<forall>s \<in> set syms. sorted_wrt (<) (map funding_time_ms (added s))"
  shows "sorted_wrt (<) (map funding_time_ms (by_sym (main_all_rows added syms) symb))"
  using assms(3) by (simp add: by_sym_main_all_rows [OF assms(1,2)])

lemma sorted_grouped:
  assumes "list_all (\<lambda>r. exchange r = ex1) xs" and "list_all (\<lambda>r. exchange r = ex2) ys"
    and "ex1 \<noteq> ex2"
    and "sorted_wrt (<) (map funding_time_ms (by_sym xs symb))"
    and "sorted_wrt (<) (map funding_time_ms (by_sym ys symb))"
  shows "sorted_wrt (<) (map funding_time_ms (grouped (xs @ ys) (ex, symb)))"
  using assms(3-5)
  by (simp add: grouped_append grouped_one_exchange [OF assms(1)]
      grouped_one_exchange [OF assms(2)])

lemma binance_short_fetch:
  "fetch_binance_funding [\<lambda>q. Body (JArr binance_short_page)] ''BTCUSDT''
     1734307200000 1800000000000
   = Some (map binance_entry_row [1734307200000, 1734336000000, 1734364800000])"
  by (simp add: fetch_binance_funding_def binance_init_def binance_body_def Let_def
      binance_short_page_def binance_row_entry MIN_MS_def MAX_MS_def)

lemma binance_short_requests:
  "binance_requests [\<lambda>q. Body (JArr binance_short_page)] ''BTCUSDT''
     1734307200000 1800000000000
   = Some [\<lparr>bn_symbol = ''BTCUSDT'', bn_startTime = 1734307200000,
            bn_endTime = 1800000000000, bn_limit = 1000\<rparr>]"
  by (simp add: binance_requests_def binance_init_def binance_body_def Let_def
      binance_short_page_def binance_row_entry MIN_MS_def MAX_MS_def)

lemma binance_short_ok:
  "binance_answer_ok (\<lambda>q. Body (JArr binance_short_page))
     \<lparr>bn_symbol = ''BTCUSDT'', bn_startTime = 1734307200000,
      bn_endTime = 1800000000000, bn_limit = 1000\<rparr>"
  by (simp add: binance_answer_ok_def binance_page_ok_def page_ok_def binance_short_page_def
      binance_raw_def binance_time_def binance_entry_def)

lemma bybit_short_fetch:
  "fetch_bybit_funding_v5 (\<lambda>ft. None) [\<lambda>q. Body (bybit_reply bybit_short_page)] ''BTCUSDT''
     1734307200000 1800000000000
   = Some (map bybit_entry_row [1734364800000, 1734336000000, 1734307200000])"
  by (simp add: fetch_bybit_funding_v5_def bybit_init_def bybit_body_def Let_def
      bybit_lst_reply bybit_short_page_def bybit_row_entry MAX_MS_def)

lemma bybit_short_requests:
  "bybit_requests (\<lambda>ft. None) [\<lambda>q. Body (bybit_reply bybit_short_page)] ''BTCUSDT''
     1734307200000 1800000000000
   = Some [\<lparr>by_category = ''linear'', by_symbol = ''BTCUSDT'', by_startTime = 1734307200000,
            by_endTime = 1800000000000, by_limit = 200\<rparr>]"
  by (simp add: bybit_requests_def bybit_init_def bybit_body_def Let_def
      bybit_lst_reply bybit_short_page_def bybit_row_entry MAX_MS_def)

lemma bybit_short_ok:
  "bybit_answer_ok (\<lambda>q. Body (bybit_reply bybit_short_page))
     \<lparr>by_category = ''linear'', by_symbol = ''BTCUSDT'', by_startTime = 1734307200000,
      by_endTime = 1800000000000, by_limit = 200\<rparr>"
  by (simp add: bybit_answer_ok_def bybit_lst_reply bybit_page_ok_def page_ok_def
      bybit_short_page_def bybit_raw_def raw_int_def bybit_ft_def bybit_entry_def)

lemma hyper_short_run:
  "hyper_run ''ETH-USDC'' (extract_coin_from_symbol ''ETH-USDC'') 1734310800000
     [\<lambda>q. Body (JArr hyper_short_page)] (hyper_init 1734307200000)
   = Break \<lparr>hl_results = [hyper_entry_row 1734307200000 ''0.0000100'',
                          hyper_entry_row 1734310800000 ''0.0000125''],
            hl_cur_start = 1734310800001,
            hl_sent = [\<lparr>hl_type = ''fundingHistory'', hl_coin = ''ETH'',
                        hl_startTime = 1734307200000, hl_endTime = 1734310800000\<rparr>]\<rparr>"
proof -
  have hrows: "map (hyper_row ''ETH-USDC'') hyper_short_page =
      map Inr [Some (hyper_entry_row 1734307200000 ''0.0000100''),
               Some (hyper_entry_row 1734310800000 ''0.0000125'')]"
    by (simp add: hyper_short_page_def hyper_row_entry MAX_MS_def)
  have hlast: "hyper_last_time hyper_short_page = Inr 1734310800000"
    by (simp add: hyper_short_page_def hyper_last_time_def hyper_ft_def hyper_entry_def)
  have ne: "hyper_short_page \<noteq> []" by (simp add: hyper_short_page_def)
  show ?thesis
    using hyper_body_page [OF hrows ne _ hlast, of "\<lambda>q. Body (JArr hyper_short_page)" "''ETH''"
        "hyper_init 1734307200000" 1734310800000]
    by (simp add: extract_coin_eth hyper_init_def window_ms_def map_filter_simps)
qed

lemma hyper_short_ok:
  "hyper_answer_ok (\<lambda>q. Body (JArr hyper_short_page))
     \<lparr>hl_type = ''fundingHistory'', hl_coin = ''ETH'',
      hl_startTime = 1734307200000, hl_endTime = 1734310800000\<rparr>"
  by (simp add: hyper_answer_ok_def hyper_page_ok_def page_ok_def hyper_short_page_def
      hyper_raw_def raw_int_def hyper_ft_def hyper_entry_def)

subsection \<open>The claims\<close>

text \<open>
  C1 (as amended): the symbols of a run being distinct (they are read through
  \<^verbatim>\<open>dict.fromkeys\<close>) and every fetch returning its list, assume that every answer that
  holds a list of entries holds entries that each carry an integer time, that lie within
  the window of the request answered (Binance \<open>[cur_start, end_ms]\<close>, Bybit
  \<open>[start_ts, cur_end]\<close>, Hyperliquid \<open>[cur_start, cur_end]\<close>) and that are strictly
  ascending within the answer (strictly descending for Bybit), and that for Bybit and
  Hyperliquid the interval starts at a time in milliseconds (\<open>start \<ge> 10^12\<close>). Then the
  group that \<^verbatim>\<open>main\<close> writes for a symbol is the list returned by the fetch of that symbol
  (reversed for Bybit), and it is strictly ascending in \<^verbatim>\<open>funding_time_ms\<close>: sorted, with
  no two rows of equal time. The same holds of every (exchange, symbol) group of the
  combined script.
\<close>

theorem persisted_rows_strictly_ascending:
  assumes "distinct bsyms"
    and "\<forall>s \<in> set bsyms. \<exists>reqs.
           binance_requests (bnet s) s start_ms end_ms = Some reqs
           \<and> list_all2 binance_answer_ok (take (length reqs) (bnet s)) reqs
           \<and> fetch_binance_funding (bnet s) s start_ms end_ms = Some (brows s)"
    and "distinct ysyms" and "10 ^ 12 \<le> start_ts"
    and "\<forall>s \<in> set ysyms. \<exists>reqs.
           bybit_requests fromiso (ynet s) s start_ts end_ts = Some reqs
           \<and> list_all2 bybit_answer_ok (take (length reqs) (ynet s)) reqs
           \<and> fetch_bybit_funding_v5 fromiso (ynet s) s start_ts end_ts = Some (yrows s)"
    and "distinct hsyms" and "10 ^ 12 \<le> start_ms'"
    and "\<forall>s \<in> set hsyms. \<exists>reqs.
           hyper_requests (hnet s) s start_ms' end_ms' = Some reqs
           \<and> list_all2 hyper_answer_ok (take (length reqs) (hnet s)) reqs
           \<and> fetch_hyper_funding_for_symbol (hnet s) s start_ms' end_ms'
               = Some (Inr (hrows s))"
  shows "by_sym (main_all_rows (\<lambda>s. main_rows (brows s)) bsyms) bsymb
           = (if bsymb \<in> set bsyms then brows bsymb else [])
       \<and> sorted_wrt (<) (map funding_time_ms
           (by_sym (main_all_rows (\<lambda>s. main_rows (brows s)) bsyms) bsymb))
       \<and> by_sym (main_all_rows (\<lambda>s. bybit_main_rows (yrows s)) ysyms) ysymb
           = (if ysymb \<in> set ysyms then rev (yrows ysymb) else [])
       \<and> sorted_wrt (<) (map funding_time_ms
           (by_sym (main_all_rows (\<lambda>s. bybit_main_rows (yrows s)) ysyms) ysymb))
       \<and> by_sym (main_all_rows (\<lambda>s. main_rows (hrows s)) hsyms) hsymb
           = (if hsymb \<in> set hsyms then hrows hsymb else [])
       \<and> sorted_wrt (<) (map funding_time_ms
           (by_sym (main_all_rows (\<lambda>s. main_rows (hrows s)) hsyms) hsymb))
       \<and> sorted_wrt (<) (map funding_time_ms
           (grouped (main_all_rows (\<lambda>s. main_rows (brows s)) bsyms
                     @ (if only_binance then []
                        else main_all_rows (\<lambda>s. bybit_main_rows (yrows s)) ysyms))
              (ex, gsymb)))"
proof -
  have bt: "\<forall>s \<in> set bsyms. list_all (tagged ''binance'' s) (main_rows (brows s))"
    using assms(2) by (blast intro: fetch_binance_tagged)
  have bs: "\<forall>s \<in> set bsyms. sorted_wrt (<) (map funding_time_ms (main_rows (brows s)))"
    unfolding main_rows_id using assms(2) by (blast intro: fetch_binance_sorted)
  have yt: "\<forall>s \<in> set ysyms. list_all (tagged ''bybit'' s) (bybit_main_rows (yrows s))"
    using assms(5) by (blast intro: fetch_bybit_tagged)
  have ys: "\<forall>s \<in> set ysyms. sorted_wrt (<) (map funding_time_ms (bybit_main_rows (yrows s)))"
    using assms(5) by (blast intro: fetch_bybit_sorted [OF assms(4)])
  have ht: "\<forall>s \<in> set hsyms. list_all (tagged ''hyperliquid'' s) (main_rows (hrows s))"
    using assms(8) by (blast intro: fetch_hyper_tagged)
  have hs: "\<forall>s \<in> set hsyms. sorted_wrt (<) (map funding_time_ms (main_rows (hrows s)))"
    unfolding main_rows_id using assms(8) by (blast intro: fetch_hyper_sorted [OF assms(7)])
  have b: "sorted_wrt (<) (map funding_time_ms
      (by_sym (main_all_rows (\<lambda>s. main_rows (brows s)) bsyms) s))" for s
    by (rule sorted_group [OF assms(1) bt bs])
  have y: "sorted_wrt (<) (map funding_time_ms
      (by_sym (main_all_rows (\<lambda>s. bybit_main_rows (yrows s)) ysyms) s))" for s
    by (rule sorted_group [OF assms(3) yt ys])
  have h: "sorted_wrt (<) (map funding_time_ms
      (by_sym (main_all_rows (\<lambda>s. main_rows (hrows s)) hsyms) s))" for s
    by (rule sorted_group [OF assms(6) ht hs])
  have be: "list_all (\<lambda>r. exchange r = ''binance'')
      (main_all_rows (\<lambda>s. main_rows (brows s)) bsyms)"
    by (rule main_all_rows_exchange [OF bt])
  have ye: "list_all (\<lambda>r. exchange r = ''bybit'')
      (if only_binance then [] else main_all_rows (\<lambda>s. bybit_main_rows (yrows s)) ysyms)"
    using main_all_rows_exchange [OF yt] by simp
  have yg: "sorted_wrt (<) (map funding_time_ms
      (by_sym (if only_binance then []
               else main_all_rows (\<lambda>s. bybit_main_rows (yrows s)) ysyms) gsymb))"
    using y [of gsymb] by (simp add: by_sym_def)
  have g: "sorted_wrt (<) (map funding_time_ms
           (grouped (main_all_rows (\<lambda>s. main_rows (brows s)) bsyms
                     @ (if only_binance then []
                        else main_all_rows (\<lambda>s. bybit_main_rows (yrows s)) ysyms))
              (ex, gsymb)))"
    by (rule sorted_grouped [OF be ye _ b yg]) simp
  have bg: "by_sym (main_all_rows (\<lambda>s. main_rows (brows s)) bsyms) bsymb
           = (if bsymb \<in> set bsyms then brows bsymb else [])"
    unfolding by_sym_main_all_rows [OF assms(1) bt] by (simp add: main_rows_id)
  have yy: "by_sym (main_all_rows (\<lambda>s. bybit_main_rows (yrows s)) ysyms) ysymb
           = (if ysymb \<in> set ysyms then rev (yrows ysymb) else [])"
    unfolding by_sym_main_all_rows [OF assms(3) yt] by (simp add: bybit_main_rows_def)
  have hg: "by_sym (main_all_rows (\<lambda>s. main_rows (hrows s)) hsyms) hsymb
           = (if hsymb \<in> set hsyms then hrows hsymb else [])"
    unfolding by_sym_main_all_rows [OF assms(6) ht] by (simp add: main_rows_id)
  from bg b yy y hg h g show ?thesis by (intro conjI)
qed

theorem persisted_rows_strictly_ascending_witness:
  "by_sym (main_all_rows
        (\<lambda>s. main_rows (map binance_entry_row [1734307200000, 1734336000000, 1734364800000]))
        [''BTCUSDT'']) ''BTCUSDT''
     = (if ''BTCUSDT'' \<in> set [''BTCUSDT'']
        then map binance_entry_row [1734307200000, 1734336000000, 1734364800000] else [])
   \<and> sorted_wrt (<) (map funding_time_ms
     (by_sym (main_all_rows
        (\<lambda>s. main_rows (map binance_entry_row [1734307200000, 1734336000000, 1734364800000]))
        [''BTCUSDT'']) ''BTCUSDT''))
   \<and> by_sym (main_all_rows
        (\<lambda>s. bybit_main_rows
           (map bybit_entry_row [1734364800000, 1734336000000, 1734307200000]))
        [''BTCUSDT'']) ''BTCUSDT''
     = (if ''BTCUSDT'' \<in> set [''BTCUSDT'']
        then rev (map bybit_entry_row [1734364800000, 1734336000000, 1734307200000]) else [])
   \<and> sorted_wrt (<) (map funding_time_ms
     (by_sym (main_all_rows
        (\<lambda>s. bybit_main_rows
           (map bybit_entry_row [1734364800000, 1734336000000, 1734307200000]))
        [''BTCUSDT'']) ''BTCUSDT''))
   \<and> by_sym (main_all_rows
        (\<lambda>s. main_rows [hyper_entry_row 1734307200000 ''0.0000100'',
                         hyper_entry_row 1734310800000 ''0.0000125''])
        [''ETH-USDC'']) ''ETH-USDC''
     = (if ''ETH-USDC'' \<in> set [''ETH-USDC'']
        then [hyper_entry_row 1734307200000 ''0.0000100'',
              hyper_entry_row 1734310800000 ''0.0000125''] else [])
   \<and> sorted_wrt (<) (map funding_time_ms
     (by_sym (main_all_rows
        (\<lambda>s. main_rows [hyper_entry_row 1734307200000 ''0.0000100'',
                         hyper_entry_row 1734310800000 ''0.0000125''])
        [''ETH-USDC'']) ''ETH-USDC''))
   \<and> sorted_wrt (<) (map funding_time_ms
     (grouped (main_all_rows
        (\<lambda>s. main_rows (map binance_entry_row [1734307200000, 1734336000000, 1734364800000]))
        [''BTCUSDT'']
       @ (if False then []
          else main_all_rows
            (\<lambda>s. bybit_main_rows
               (map bybit_entry_row [1734364800000, 1734336000000, 1734307200000]))
            [''BTCUSDT'']))
       (''bybit'', ''BTCUSDT'')))"
proof -
  have b: "\<forall>s \<in> set [''BTCUSDT'']. \<exists>reqs.
      binance_requests [\<lambda>q. Body (JArr binance_short_page)] s 1734307200000 1800000000000
        = Some reqs
      \<and> list_all2 binance_answer_ok
          (take (length reqs) [\<lambda>q. Body (JArr binance_short_page)]) reqs
      \<and> fetch_binance_funding [\<lambda>q. Body (JArr binance_short_page)] s 1734307200000
          1800000000000
        = Some (map binance_entry_row [1734307200000, 1734336000000, 1734364800000])"
    using binance_short_ok by (simp add: binance_short_requests binance_short_fetch)
  have y: "\<forall>s \<in> set [''BTCUSDT'']. \<exists>reqs.
      bybit_requests (\<lambda>ft. None) [\<lambda>q. Body (bybit_reply bybit_short_page)] s
          1734307200000 1800000000000
        = Some reqs
      \<and> list_all2 bybit_answer_ok
          (take (length reqs) [\<lambda>q. Body (bybit_reply bybit_short_page)]) reqs
      \<and> fetch_bybit_funding_v5 (\<lambda>ft. None) [\<lambda>q. Body (bybit_reply bybit_short_page)] s
          1734307200000 1800000000000
        = Some (map bybit_entry_row [1734364800000, 1734336000000, 1734307200000])"
    using bybit_short_ok by (simp add: bybit_short_requests bybit_short_fetch)
  have h: "\<forall>s \<in> set [''ETH-USDC'']. \<exists>reqs.
      hyper_requests [\<lambda>q. Body (JArr hyper_short_page)] s 1734307200000 1734310800000
        = Some reqs
      \<and> list_all2 hyper_answer_ok
          (take (length reqs) [\<lambda>q. Body (JArr hyper_short_page)]) reqs
      \<and> fetch_hyper_funding_for_symbol [\<lambda>q. Body (JArr hyper_short_page)] s 1734307200000
          1734310800000
        = Some (Inr [hyper_entry_row 1734307200000 ''0.0000100'',
                     hyper_entry_row 1734310800000 ''0.0000125''])"
    using hyper_short_ok
    unfolding hyper_requests_def fetch_hyper_funding_for_symbol_def
    by (simp add: hyper_short_run dedup_sorted_two_rows del: hyper_run.simps)
  have d: "distinct [''BTCUSDT'']" "distinct [''ETH-USDC'']" by simp_all
  have t: "(10 :: int) ^ 12 \<le> 1734307200000" by simp
  show ?thesis
    by (rule persisted_rows_strictly_ascending
        [where bnet = "\<lambda>s. [\<lambda>q. Body (JArr binance_short_page)]"
           and brows = "\<lambda>s. map binance_entry_row [1734307200000, 1734336000000, 1734364800000]"
           and ynet = "\<lambda>s. [\<lambda>q. Body (bybit_reply bybit_short_page)]"
           and yrows = "\<lambda>s. map bybit_entry_row [1734364800000, 1734336000000, 1734307200000]"
           and hnet = "\<lambda>s. [\<lambda>q. Body (JArr hyper_short_page)]"
           and hrows = "\<lambda>s. [hyper_entry_row 1734307200000 ''0.0000100'',
                              hyper_entry_row 1734310800000 ''0.0000125'']"
           and fromiso = "\<lambda>ft. None",
         OF d(1) b d(1) t y d(2) t h])
qed

text \<open>
  C1 as stated fails: a list of entries within the requested window need not be ordered
  nor free of equal times. Binance rows are returned in the order received; the closing
  statement of the Hyperliquid fetcher removes duplicates by time and rate, so two entries
  of the same time with different rates both stay.
\<close>

theorem unordered_page_and_equal_times:
  "fetch_binance_funding
     [\<lambda>q. Body (JArr [binance_entry 1734336000000, binance_entry 1734307200000])]
     ''BTCUSDT'' 1734307200000 1800000000000
   = Some [binance_entry_row 1734336000000, binance_entry_row 1734307200000]
   \<and> map funding_time_ms
       (by_sym (main_all_rows
          (\<lambda>s. main_rows [binance_entry_row 1734336000000, binance_entry_row 1734307200000])
          [''BTCUSDT'']) ''BTCUSDT'')
     = [1734336000000, 1734307200000]
   \<and> fetch_hyper_funding_for_symbol
     [\<lambda>q. Body (JArr [hyper_entry 1734307200000 ''0.0000100'',
                        hyper_entry 1734310800000 ''0.0000125'',
                        hyper_entry 1734310800000 ''0.0000130''])]
     ''ETH-USDC'' 1734307200000 1734310800000
   = Some (Inr [hyper_entry_row 1734307200000 ''0.0000100'',
                hyper_entry_row 1734310800000 ''0.0000125'',
                hyper_entry_row 1734310800000 ''0.0000130''])
   \<and> map funding_time_ms
       (by_sym (main_all_rows
          (\<lambda>s. main_rows [hyper_entry_row 1734307200000 ''0.0000100'',
                           hyper_entry_row 1734310800000 ''0.0000125'',
                           hyper_entry_row 1734310800000 ''0.0000130''])
          [''ETH-USDC'']) ''ETH-USDC'')
     = [1734307200000, 1734310800000, 1734310800000]"
proof -
  have b: "fetch_binance_funding
     [\<lambda>q. Body (JArr [binance_entry 1734336000000, binance_entry 1734307200000])]
     ''BTCUSDT'' 1734307200000 1800000000000
   = Some [binance_entry_row 1734336000000, binance_entry_row 1734307200000]"
    by (simp add: fetch_binance_funding_def binance_init_def binance_body_def Let_def
        binance_row_entry MIN_MS_def MAX_MS_def)
  let ?hp = "[hyper_entry 1734307200000 ''0.0000100'', hyper_entry 1734310800000 ''0.0000125'',
              hyper_entry 1734310800000 ''0.0000130'']"
  have hrows: "map (hyper_row ''ETH-USDC'') ?hp =
      map Inr [Some (hyper_entry_row 1734307200000 ''0.0000100''),
               Some (hyper_entry_row 1734310800000 ''0.0000125''),
               Some (hyper_entry_row 1734310800000 ''0.0000130'')]"
    by (simp add: hyper_row_entry MAX_MS_def)
  have hlast: "hyper_last_time ?hp = Inr 1734310800000"
    by (simp add: hyper_last_time_def hyper_ft_def hyper_entry_def)
  have d: "dedup_sorted [hyper_entry_row 1734307200000 ''0.0000100'',
            hyper_entry_row 1734310800000 ''0.0000125'',
            hyper_entry_row 1734310800000 ''0.0000130'']
     = Inr [hyper_entry_row 1734307200000 ''0.0000100'',
            hyper_entry_row 1734310800000 ''0.0000125'',
            hyper_entry_row 1734310800000 ''0.0000130'']"
    by (simp add: dedup_sorted_def same_key_def hyper_entry_row_def py_eq_def)
  have h: "fetch_hyper_funding_for_symbol
     [\<lambda>q. Body (JArr [hyper_entry 1734307200000 ''0.0000100'',
                        hyper_entry 1734310800000 ''0.0000125'',
                        hyper_entry 1734310800000 ''0.0000130''])]
     ''ETH-USDC'' 1734307200000 1734310800000
   = Some (Inr [hyper_entry_row 1734307200000 ''0.0000100'',
                hyper_entry_row 1734310800000 ''0.0000125'',
                hyper_entry_row 1734310800000 ''0.0000130''])"
    using hyper_body_page [OF hrows _ _ hlast, of "\<lambda>q. Body (JArr ?hp)" "''ETH''"
        "hyper_init 1734307200000" 1734310800000]
    by (simp add: fetch_hyper_funding_for_symbol_def extract_coin_eth hyper_init_def
        window_ms_def map_filter_simps d)
  have g: "map funding_time_ms
       (by_sym (main_all_rows
          (\<lambda>s. main_rows [binance_entry_row 1734336000000, binance_entry_row 1734307200000])
          [''BTCUSDT'']) ''BTCUSDT'')
     = [1734336000000, 1734307200000]"
    by (simp add: by_sym_def main_all_rows_def main_rows_def binance_entry_row_def)
  have g': "map funding_time_ms
       (by_sym (main_all_rows
          (\<lambda>s. main_rows [hyper_entry_row 1734307200000 ''0.0000100'',
                           hyper_entry_row 1734310800000 ''0.0000125'',
                           hyper_entry_row 1734310800000 ''0.0000130''])
          [''ETH-USDC'']) ''ETH-USDC'')
     = [1734307200000, 1734310800000, 1734310800000]"
    by (simp add: by_sym_def main_all_rows_def main_rows_def hyper_entry_row_def)
  from b g h g' show ?thesis by (intro conjI)
qed

text \<open>
  C2 (as amended): when a page request fails (timeout, HTTP error status, JSON decode
  error), no fetcher lets the exception out; the fetch of that symbol stops there.
  \<^verbatim>\<open>fetch_binance_funding\<close> and \<^verbatim>\<open>fetch_bybit_funding_v5\<close> return the list
  accumulated before the failure, unchanged. \<^verbatim>\<open>fetch_hyper_funding_for_symbol\<close> returns
  what its closing statement (deduplication by \<^verbatim>\<open>(funding_time_ms, funding_rate)\<close>, then
  a sort by \<^verbatim>\<open>funding_time_ms\<close>) makes of that list.
\<close>

theorem fetch_stops_on_failure:
  assumes "binance_run symb end_ms pre (binance_init start_ms) = Next bst"
    and "bsrv \<lparr>bn_symbol = symb, bn_startTime = bn_cur_start bst, bn_endTime = end_ms,
               bn_limit = 1000\<rparr> = Failed"
    and "bybit_run fromiso symb' start_ts ypre (bybit_init end_ts) = Next yst"
    and "ysrv \<lparr>by_category = ''linear'', by_symbol = symb', by_startTime = start_ts,
               by_endTime = by_cur_end yst, by_limit = 200\<rparr> = Failed"
    and "hyper_run symb'' (extract_coin_from_symbol symb'') end_ms' hpre (hyper_init start_ms')
           = Next hst"
    and "hsrv \<lparr>hl_type = ''fundingHistory'', hl_coin = extract_coin_from_symbol symb'',
               hl_startTime = hl_cur_start hst,
               hl_endTime = min end_ms' (hl_cur_start hst + window_ms - 1)\<rparr> = Failed"
  shows "fetch_binance_funding (pre @ bsrv # rest) symb start_ms end_ms = Some (bn_results bst)
       \<and> fetch_bybit_funding_v5 fromiso (ypre @ ysrv # yrest) symb' start_ts end_ts
           = Some (by_results yst)
       \<and> fetch_hyper_funding_for_symbol (hpre @ hsrv # hrest) symb'' start_ms' end_ms'
           = Some (dedup_sorted (hl_results hst))"
proof -
  have "hl_cur_start hst \<le> end_ms'" using assms(5) by (rule hyper_run_Next_guard)
  then show ?thesis
    using assms
    by (simp add: fetch_binance_funding_def fetch_bybit_funding_v5_def
        fetch_hyper_funding_for_symbol_def binance_run_append bybit_run_append hyper_run_append
        binance_body_def bybit_body_def hyper_body_def)
qed

theorem fetch_stops_on_failure_witness:
  "fetch_binance_funding
     [\<lambda>q. Body (JArr (map binance_entry (every_8h 1734307200000 1000))), \<lambda>q. Failed]
     ''BTCUSDT'' 1734307200000 1800000000000
   = Some (map binance_entry_row (every_8h 1734307200000 1000))
   \<and> fetch_bybit_funding_v5 (\<lambda>ft. None)
     [\<lambda>q. Body (bybit_reply (map bybit_entry (every_8h_down 1800000000000 200))), \<lambda>q. Failed]
     ''BTCUSDT'' 1734307200000 1800000000000
   = Some (map bybit_entry_row (every_8h_down 1800000000000 200))
   \<and> fetch_hyper_funding_for_symbol
     [\<lambda>q. Body (JArr [hyper_entry 1734307200000 ''0.0000100'',
                        hyper_entry 1734310800000 ''0.0000125'']),
      \<lambda>q. Failed]
     ''ETH-USDC'' 1734307200000 1800000000000
   = Some (Inr [hyper_entry_row 1734307200000 ''0.0000100'',
                hyper_entry_row 1734310800000 ''0.0000125''])"
proof -
  have d: "dedup_sorted [hyper_entry_row 1734307200000 ''0.0000100'',
                         hyper_entry_row 1734310800000 ''0.0000125'']
           = Inr [hyper_entry_row 1734307200000 ''0.0000100'',
                  hyper_entry_row 1734310800000 ''0.0000125'']"
    by (simp add: dedup_sorted_def same_key_def hyper_entry_row_def)
  show ?thesis
    using fetch_stops_on_failure [OF binance_full_page_run _ bybit_full_page_run _
        hyper_page_run, of "\<lambda>q. Failed" "\<lambda>q. Failed" "\<lambda>q. Failed" "[]" "[]" "[]"] d
    by simp
qed

text \<open>
  C2 as stated fails for Hyperliquid: three rows are accumulated, one of them twice and
  the later one first; after the failed request two rows come back, in another order.
\<close>

theorem hyper_failure_returns_deduplicated:
  "hyper_run ''ETH-USDC'' ''ETH'' 1800000000000
     [\<lambda>q. Body (JArr [hyper_entry 1734310800000 ''0.0000125'',
                        hyper_entry 1734307200000 ''0.0000100'',
                        hyper_entry 1734310800000 ''0.0000125''])]
     (hyper_init 1734307200000)
   = Next \<lparr>hl_results =
             [\<lparr>exchange = ''hyperliquid'', symbol = ''ETH-USDC'',
               funding_time_ms = 1734310800000, funding_time_iso = ''2024-12-16T01:00:00Z'',
               funding_rate = JStr ''0.0000125''\<rparr>,
              \<lparr>exchange = ''hyperliquid'', symbol = ''ETH-USDC'',
               funding_time_ms = 1734307200000, funding_time_iso = ''2024-12-16T00:00:00Z'',
               funding_rate = JStr ''0.0000100''\<rparr>,
              \<lparr>exchange = ''hyperliquid'', symbol = ''ETH-USDC'',
               funding_time_ms = 1734310800000, funding_time_iso = ''2024-12-16T01:00:00Z'',
               funding_rate = JStr ''0.0000125''\<rparr>],
           hl_cur_start = 1734310800001,
           hl_sent = [\<lparr>hl_type = ''fundingHistory'', hl_coin = ''ETH'',
                       hl_startTime = 1734307200000, hl_endTime = 1736899199999\<rparr>]\<rparr>
   \<and> fetch_hyper_funding_for_symbol
     [\<lambda>q. Body (JArr [hyper_entry 1734310800000 ''0.0000125'',
                        hyper_entry 1734307200000 ''0.0000100'',
                        hyper_entry 1734310800000 ''0.0000125'']),
      \<lambda>q. Failed]
     ''ETH-USDC'' 1734307200000 1800000000000
   = Some (Inr [\<lparr>exchange = ''hyperliquid'', symbol = ''ETH-USDC'',
                  funding_time_ms = 1734307200000, funding_time_iso = ''2024-12-16T00:00:00Z'',
                  funding_rate = JStr ''0.0000100''\<rparr>,
                 \<lparr>exchange = ''hyperliquid'', symbol = ''ETH-USDC'',
                  funding_time_ms = 1734310800000, funding_time_iso = ''2024-12-16T01:00:00Z'',
                  funding_rate = JStr ''0.0000125''\<rparr>])"
proof -
  have ext: "extract_coin_from_symbol ''ETH-USDC'' = ''ETH''"
    by (simp add: extract_coin_from_symbol_def is_ascii_letter_def)
  have lt: "hyper_last_time [hyper_entry 1734310800000 ''0.0000125'',
                        hyper_entry 1734307200000 ''0.0000100'',
                        hyper_entry 1734310800000 ''0.0000125''] = Inr 1734310800000"
    by (simp add: hyper_last_time_def hyper_ft_def hyper_entry_def)
  show ?thesis
    using hyper_body_page [OF hyper_rows_duplicate_page _ _ lt, of "\<lambda>q. Body (JArr [hyper_entry 1734310800000 ''0.0000125'',
                        hyper_entry 1734307200000 ''0.0000100'',
                        hyper_entry 1734310800000 ''0.0000125''])" "''ETH''" "hyper_init 1734307200000" 1800000000000]
    by (simp add: fetch_hyper_funding_for_symbol_def ext hyper_init_def window_ms_def
        map_filter_simps hyper_entry_row_def iso_2024_12_16_00 iso_2024_12_16_01
        hyper_body_def dedup_sorted_def same_key_def py_eq_def)
qed

text \<open>
  C3 (as amended): each fetcher reads the entries of a page in order, up to the first
  entry that raises: an entry that is no dict, or one whose \<^verbatim>\<open>funding_time_ms\<close>, as
  given below, \<^verbatim>\<open>iso_from_ms\<close> cannot render (a year outside 1 to 9999); for Binance
  also an entry whose \<^verbatim>\<open>fundingTime\<close> does not read as an integer. The rows built
  before that entry are kept. For the entries read, in their order:
  \<^verbatim>\<open>fetch_bybit_funding_v5\<close> takes the first truthy timestamp field; when it reads as an
  integer \<open>t\<close>, \<^verbatim>\<open>funding_time_ms\<close> is \<open>t * 1000\<close> for \<open>t < 10^12\<close> and \<open>t\<close>
  otherwise; when it does not, the ISO-8601 parser is tried and its value is taken as it
  is; when both fail, or there is no timestamp, the entry yields no row and the loop goes
  on. \<^verbatim>\<open>fetch_hyper_funding_for_symbol\<close> normalises an integer in the same way and has
  no second parser: an entry whose time is not an integer yields no row.
  \<^verbatim>\<open>fetch_binance_funding\<close> does not normalise: \<^verbatim>\<open>funding_time_ms\<close> is
  \<^verbatim>\<open>int(fundingTime)\<close> unchanged.
\<close>

theorem timestamp_normalisation:
  "map funding_time_ms (exec_state (bybit_items fromiso symb items acc)) =
     map funding_time_ms acc
     @ List.map_filter (bybit_entry_time fromiso)
         (takeWhile (\<lambda>item. \<not> entry_raises (bybit_entry_time fromiso item) item) items)
   \<and> map funding_time_ms (exec_state (hyper_items symb' items' acc')) =
     map funding_time_ms acc'
     @ List.map_filter hyper_entry_time
         (takeWhile (\<lambda>item. \<not> entry_raises (hyper_entry_time item) item) items')
   \<and> map funding_time_ms (exec_state (binance_items symb'' items'' acc'')) =
     map funding_time_ms acc''
     @ List.map_filter binance_raw (takeWhile (\<lambda>item. \<not> binance_raises item) items'')"
  by (intro conjI bybit_items_prefix_times hyper_items_prefix_times binance_items_prefix_times)

theorem timestamp_normalisation_witness:
  "map funding_time_ms
     (exec_state (Raised DateError
       [row_at ''bybit'' ''BTCUSDT'' 1700000000000 ''2023-11-14T22:13:20Z'' ''0.0001'',
        row_at ''bybit'' ''BTCUSDT'' 1700000000000 ''2023-11-14T22:13:20Z'' ''0.0001'',
        row_at ''bybit'' ''BTCUSDT'' 1700000000000 ''2023-11-14T22:13:20Z'' ''0.0001'']))
   = map funding_time_ms ([] :: funding_record list)
     @ List.map_filter (bybit_entry_time iso_table)
         (takeWhile (\<lambda>item. \<not> entry_raises (bybit_entry_time iso_table item) item)
            bybit_raising_page)
   \<and> map funding_time_ms
     (exec_state (Raised AttributeError
       [row_at ''hyperliquid'' ''ETH-USDC'' 1700000000000 ''2023-11-14T22:13:20Z''
          ''0.0000125'',
        row_at ''hyperliquid'' ''ETH-USDC'' 1700003600000 ''2023-11-14T23:13:20Z''
          ''0.0000125'']))
   = map funding_time_ms ([] :: funding_record list)
     @ List.map_filter hyper_entry_time
         (takeWhile (\<lambda>item. \<not> entry_raises (hyper_entry_time item) item)
            hyper_raising_page)
   \<and> map funding_time_ms
     (exec_state (Raised TypeError
       [row_at ''binance'' ''BTCUSDT'' 1700000000 ''1970-01-20T16:13:20Z'' ''0.00010000'',
        row_at ''binance'' ''BTCUSDT'' 1700000000000 ''2023-11-14T22:13:20Z''
          ''0.00010000'']))
   = map funding_time_ms ([] :: funding_record list)
     @ List.map_filter binance_raw
         (takeWhile (\<lambda>item. \<not> binance_raises item) binance_raising_page)"
  using timestamp_normalisation
    [where fromiso = iso_table and symb = "''BTCUSDT''" and items = bybit_raising_page
       and acc = "[]" and symb' = "''ETH-USDC''" and items' = hyper_raising_page
       and acc' = "[]" and symb'' = "''BTCUSDT''" and items'' = binance_raising_page
       and acc'' = "[]"]
  unfolding bybit_raising_page_rows hyper_raising_page_rows binance_raising_page_rows .

text \<open>
  C3 as stated fails for two of the three fetchers. Binance: a \<^verbatim>\<open>fundingTime\<close> of
  \<open>1700000000\<close> is under \<open>10^12\<close> and stays \<open>1700000000\<close>. Hyperliquid: an entry
  whose time is the ISO string of that instant yields no row.
\<close>

theorem binance_keeps_seconds_hyper_skips_iso:
  "fetch_binance_funding [\<lambda>q. Body (JArr [binance_entry 1700000000])]
     ''BTCUSDT'' 0 1800000000000
   = Some [\<lparr>exchange = ''binance'', symbol = ''BTCUSDT'', funding_time_ms = 1700000000,
            funding_time_iso = ''1970-01-20T16:13:20Z'',
            funding_rate = JStr ''0.00010000''\<rparr>]
   \<and> fetch_hyper_funding_for_symbol [\<lambda>q. Body (JArr [hyper_iso_entry])]
     ''ETH-USDC'' 1700000000000 1800000000000
   = Some (Inr [])"
proof -
  have b: "binance_row ''BTCUSDT'' (binance_entry 1700000000) =
      Inr (binance_entry_row 1700000000)"
    by (simp add: binance_row_entry MIN_MS_def MAX_MS_def)
  have h: "hyper_row ''ETH-USDC'' hyper_iso_entry = Inr None"
    by (simp add: hyper_iso_entry_def hyper_row_def hyper_fr_def hyper_ft_def int_ms_def
        int_of_string_iso)
  have l: "hyper_last_time [hyper_iso_entry] = Inl ValueError"
    by (simp add: hyper_iso_entry_def hyper_last_time_def hyper_ft_def int_of_string_iso)
  show ?thesis
    by (simp add: fetch_binance_funding_def binance_init_def binance_body_def b
        binance_entry_row_def iso_1970_01_20 fetch_hyper_funding_for_symbol_def
        extract_coin_eth hyper_init_def hyper_body_def window_ms_def h l dedup_sorted_def)
qed

text \<open>
  C4 (as amended): \<^verbatim>\<open>fetch_bybit_funding_v5\<close> returns its rows in the order of their
  arrival, without reversing them: newest first when the endpoint answers in descending
  time order. The reversal is made by the caller, \<^verbatim>\<open>main\<close>, which extends its rows with
  \<^verbatim>\<open>rows[::-1]\<close>. So when the endpoint answers in descending time order with three full
  pages of 200 entries and a last page of 5, the fetcher sends four requests and returns
  605 rows in descending order, and \<^verbatim>\<open>main\<close> keeps for that symbol the same 605 rows in
  ascending order of \<^verbatim>\<open>funding_time_ms\<close>.
\<close>

theorem bybit_four_pages:
  assumes len: "length p1 = 200" "length p2 = 200" "length p3 = 200" "length p4 = 5"
    and rows: "map (bybit_row fromiso symb) p1 = map (\<lambda>r. Inr (Some r)) rows1"
      "map (bybit_row fromiso symb) p2 = map (\<lambda>r. Inr (Some r)) rows2"
      "map (bybit_row fromiso symb) p3 = map (\<lambda>r. Inr (Some r)) rows3"
      "map (bybit_row fromiso symb) p4 = map (\<lambda>r. Inr (Some r)) rows4"
    and desc: "sorted_wrt (>) (map funding_time_ms (rows1 @ rows2 @ rows3 @ rows4))"
    and cur: "bybit_last_time p1 = Inr c1" "bybit_last_time p2 = Inr c2"
      "bybit_last_time p3 = Inr c3"
    and srv: "srv1 \<lparr>by_category = ''linear'', by_symbol = symb, by_startTime = start_ts,
                    by_endTime = end_ts, by_limit = 200\<rparr> = Body j1"
      "srv2 \<lparr>by_category = ''linear'', by_symbol = symb, by_startTime = start_ts,
             by_endTime = c1 - 1, by_limit = 200\<rparr> = Body j2"
      "srv3 \<lparr>by_category = ''linear'', by_symbol = symb, by_startTime = start_ts,
             by_endTime = c2 - 1, by_limit = 200\<rparr> = Body j3"
      "srv4 \<lparr>by_category = ''linear'', by_symbol = symb, by_startTime = start_ts,
             by_endTime = c3 - 1, by_limit = 200\<rparr> = Body j4"
    and lst: "bybit_lst j1 = JArr p1" "bybit_lst j2 = JArr p2" "bybit_lst j3 = JArr p3"
      "bybit_lst j4 = JArr p4"
  shows "fetch_bybit_funding_v5 fromiso (srv1 # srv2 # srv3 # srv4 # rest) symb start_ts end_ts
           = Some (rows1 @ rows2 @ rows3 @ rows4)
       \<and> bybit_main_rows (rows1 @ rows2 @ rows3 @ rows4) = rev (rows1 @ rows2 @ rows3 @ rows4)
       \<and> length (bybit_main_rows (rows1 @ rows2 @ rows3 @ rows4)) = 605
       \<and> sorted_wrt (<) (map funding_time_ms (bybit_main_rows (rows1 @ rows2 @ rows3 @ rows4)))"
proof -
  have ne: "p1 \<noteq> []" "p2 \<noteq> []" "p3 \<noteq> []" "p4 \<noteq> []" using len by auto
  have l: "length rows1 = 200" "length rows2 = 200" "length rows3 = 200" "length rows4 = 5"
    using rows len by (metis length_map)+
  note r = rows [THEN bybit_rows_all]
  let ?q = "\<lambda>e. \<lparr>by_category = ''linear'', by_symbol = symb, by_startTime = start_ts,
                   by_endTime = e, by_limit = 200\<rparr>"
  have s1: "bybit_body fromiso symb start_ts srv1 (bybit_init end_ts) =
      Next \<lparr>by_results = rows1, by_cur_end = c1 - 1, by_sent = [?q end_ts]\<rparr>"
    using bybit_body_page [OF r(1) ne(1) _ lst(1) cur(1), of srv1 start_ts "bybit_init end_ts"]
      srv(1) len(1)
    by (simp add: bybit_init_def map_filter_id_map_Some)
  have s2: "bybit_body fromiso symb start_ts srv2
      \<lparr>by_results = rows1, by_cur_end = c1 - 1, by_sent = [?q end_ts]\<rparr> =
      Next \<lparr>by_results = rows1 @ rows2, by_cur_end = c2 - 1,
            by_sent = [?q end_ts, ?q (c1 - 1)]\<rparr>"
    using bybit_body_page [OF r(2) ne(2) _ lst(2) cur(2), of srv2 start_ts
        "\<lparr>by_results = rows1, by_cur_end = c1 - 1, by_sent = [?q end_ts]\<rparr>"]
      srv(2) len(2)
    by (simp add: map_filter_id_map_Some)
  have s3: "bybit_body fromiso symb start_ts srv3
      \<lparr>by_results = rows1 @ rows2, by_cur_end = c2 - 1,
        by_sent = [?q end_ts, ?q (c1 - 1)]\<rparr> =
      Next \<lparr>by_results = rows1 @ rows2 @ rows3, by_cur_end = c3 - 1,
            by_sent = [?q end_ts, ?q (c1 - 1), ?q (c2 - 1)]\<rparr>"
    using bybit_body_page [OF r(3) ne(3) _ lst(3) cur(3), of srv3 start_ts
        "\<lparr>by_results = rows1 @ rows2, by_cur_end = c2 - 1,
          by_sent = [?q end_ts, ?q (c1 - 1)]\<rparr>"]
      srv(3) len(3)
    by (simp add: map_filter_id_map_Some)
  have s4: "bybit_body fromiso symb start_ts srv4
      \<lparr>by_results = rows1 @ rows2 @ rows3, by_cur_end = c3 - 1,
        by_sent = [?q end_ts, ?q (c1 - 1), ?q (c2 - 1)]\<rparr> =
      Break \<lparr>by_results = rows1 @ rows2 @ rows3 @ rows4, by_cur_end = c3 - 1,
            by_sent = [?q end_ts, ?q (c1 - 1), ?q (c2 - 1), ?q (c3 - 1)]\<rparr>"
    using srv(4) lst(4) ne(4) len(4) bybit_items_rows [OF r(4), of "rows1 @ rows2 @ rows3"]
    by (simp add: bybit_body_def map_filter_id_map_Some)
  have f: "fetch_bybit_funding_v5 fromiso (srv1 # srv2 # srv3 # srv4 # rest) symb start_ts end_ts
           = Some (rows1 @ rows2 @ rows3 @ rows4)"
    by (simp add: fetch_bybit_funding_v5_def s1 s2 s3 s4)
  have ne_rows: "rows1 @ rows2 @ rows3 @ rows4 \<noteq> []" using l by auto
  have m: "bybit_main_rows (rows1 @ rows2 @ rows3 @ rows4) = rev (rows1 @ rows2 @ rows3 @ rows4)"
    using ne_rows unfolding bybit_main_rows_def by simp
  have n: "length (bybit_main_rows (rows1 @ rows2 @ rows3 @ rows4)) = 605"
    unfolding m using l by simp
  have a: "sorted_wrt (<) (map funding_time_ms (bybit_main_rows (rows1 @ rows2 @ rows3 @ rows4)))"
    unfolding m rev_map [symmetric] sorted_wrt_rev_gt using desc .
  show ?thesis using f m n a by blast
qed

theorem bybit_four_pages_witness:
  "fetch_bybit_funding_v5 (\<lambda>ft. None)
     ((\<lambda>q. Body (bybit_reply (map bybit_entry (every_8h_down 1800000000000 200))))
      # (\<lambda>q. Body (bybit_reply (map bybit_entry (every_8h_down 1794240000000 200))))
      # (\<lambda>q. Body (bybit_reply (map bybit_entry (every_8h_down 1788480000000 200))))
      # (\<lambda>q. Body (bybit_reply (map bybit_entry (every_8h_down 1782720000000 5))))
      # [])
     ''BTCUSDT'' 1734307200000 1800000000000
   = Some (map bybit_entry_row (every_8h_down 1800000000000 200)
           @ map bybit_entry_row (every_8h_down 1794240000000 200)
           @ map bybit_entry_row (every_8h_down 1788480000000 200)
           @ map bybit_entry_row (every_8h_down 1782720000000 5))
   \<and> bybit_main_rows
        (map bybit_entry_row (every_8h_down 1800000000000 200)
         @ map bybit_entry_row (every_8h_down 1794240000000 200)
         @ map bybit_entry_row (every_8h_down 1788480000000 200)
         @ map bybit_entry_row (every_8h_down 1782720000000 5))
      = rev (map bybit_entry_row (every_8h_down 1800000000000 200)
             @ map bybit_entry_row (every_8h_down 1794240000000 200)
             @ map bybit_entry_row (every_8h_down 1788480000000 200)
             @ map bybit_entry_row (every_8h_down 1782720000000 5))
   \<and> length (bybit_main_rows
        (map bybit_entry_row (every_8h_down 1800000000000 200)
         @ map bybit_entry_row (every_8h_down 1794240000000 200)
         @ map bybit_entry_row (every_8h_down 1788480000000 200)
         @ map bybit_entry_row (every_8h_down 1782720000000 5))) = 605
   \<and> sorted_wrt (<) (map funding_time_ms (bybit_main_rows
        (map bybit_entry_row (every_8h_down 1800000000000 200)
         @ map bybit_entry_row (every_8h_down 1794240000000 200)
         @ map bybit_entry_row (every_8h_down 1788480000000 200)
         @ map bybit_entry_row (every_8h_down 1782720000000 5))))"
proof -
  have r1: "map (bybit_row (\<lambda>ft. None) ''BTCUSDT'')
              (map bybit_entry (every_8h_down 1800000000000 200))
            = map (\<lambda>r. Inr (Some r)) (map bybit_entry_row (every_8h_down 1800000000000 200))"
    by (rule bybit_rows_page) (auto simp: MAX_MS_def dest!: every_8h_down_bounds)
  have r2: "map (bybit_row (\<lambda>ft. None) ''BTCUSDT'')
              (map bybit_entry (every_8h_down 1794240000000 200))
            = map (\<lambda>r. Inr (Some r)) (map bybit_entry_row (every_8h_down 1794240000000 200))"
    by (rule bybit_rows_page) (auto simp: MAX_MS_def dest!: every_8h_down_bounds)
  have r3: "map (bybit_row (\<lambda>ft. None) ''BTCUSDT'')
              (map bybit_entry (every_8h_down 1788480000000 200))
            = map (\<lambda>r. Inr (Some r)) (map bybit_entry_row (every_8h_down 1788480000000 200))"
    by (rule bybit_rows_page) (auto simp: MAX_MS_def dest!: every_8h_down_bounds)
  have r4: "map (bybit_row (\<lambda>ft. None) ''BTCUSDT'')
              (map bybit_entry (every_8h_down 1782720000000 5))
            = map (\<lambda>r. Inr (Some r)) (map bybit_entry_row (every_8h_down 1782720000000 5))"
    by (rule bybit_rows_page) (auto simp: MAX_MS_def dest!: every_8h_down_bounds)
  have desc: "sorted_wrt (>) (map funding_time_ms
       (map bybit_entry_row (every_8h_down 1800000000000 200)
        @ map bybit_entry_row (every_8h_down 1794240000000 200)
        @ map bybit_entry_row (every_8h_down 1788480000000 200)
        @ map bybit_entry_row (every_8h_down 1782720000000 5)))"
    unfolding map_append bybit_entry_row_times every_8h_down_605
    by (rule every_8h_down_sorted)
  have c1: "bybit_last_time (map bybit_entry (every_8h_down 1800000000000 200))
            = Inr 1794268800000"
    using bybit_last_time_page [of 200 1800000000000] by simp
  have c2: "bybit_last_time (map bybit_entry (every_8h_down 1794240000000 200))
            = Inr 1788508800000"
    using bybit_last_time_page [of 200 1794240000000] by simp
  have c3: "bybit_last_time (map bybit_entry (every_8h_down 1788480000000 200))
            = Inr 1782748800000"
    using bybit_last_time_page [of 200 1788480000000] by simp
  show ?thesis
    by (rule bybit_four_pages [OF _ _ _ _ r1 r2 r3 r4 desc c1 c2 c3 refl refl refl refl
          bybit_lst_reply bybit_lst_reply bybit_lst_reply bybit_lst_reply])
       (simp_all add: every_8h_down_length)
qed

text \<open>
  C4 as stated fails: the fetcher itself does not reverse. Two entries arrive newest
  first and are returned newest first.
\<close>

theorem bybit_fetch_returns_descending:
  "fetch_bybit_funding_v5 (\<lambda>ft. None)
     [\<lambda>q. Body (bybit_reply [bybit_entry 1734336000000, bybit_entry 1734307200000])]
     ''BTCUSDT'' 1734307200000 1800000000000
   = Some [\<lparr>exchange = ''bybit'', symbol = ''BTCUSDT'', funding_time_ms = 1734336000000,
            funding_time_iso = ''2024-12-16T08:00:00Z'', funding_rate = JStr ''0.0001''\<rparr>,
           \<lparr>exchange = ''bybit'', symbol = ''BTCUSDT'', funding_time_ms = 1734307200000,
            funding_time_iso = ''2024-12-16T00:00:00Z'', funding_rate = JStr ''0.0001''\<rparr>]"
proof -
  have r: "bybit_row (\<lambda>ft. None) ''BTCUSDT'' (bybit_entry 1734336000000)
             = Inr (Some (bybit_entry_row 1734336000000))"
    "bybit_row (\<lambda>ft. None) ''BTCUSDT'' (bybit_entry 1734307200000)
             = Inr (Some (bybit_entry_row 1734307200000))"
    by (simp_all add: bybit_row_entry MAX_MS_def)
  show ?thesis
    by (simp add: fetch_bybit_funding_v5_def bybit_init_def bybit_body_def bybit_lst_reply r
        bybit_entry_row_def iso_2024_12_16_00 iso_2024_12_16_08)
qed

text \<open>
  C5 (as amended): an answer that holds no list of entries (an empty list or a body that is
  not a list; for Bybit a body in which no non-empty \<^verbatim>\<open>list\<close> is found) ends the
  pagination of \<^verbatim>\<open>fetch_binance_funding\<close> and \<^verbatim>\<open>fetch_bybit_funding_v5\<close>, which
  return the rows accumulated so far, without error. \<^verbatim>\<open>fetch_hyper_funding_for_symbol\<close>
  does not stop there: on an empty list (or a dict or a string) it keeps its rows, moves
  \<^verbatim>\<open>cur_start\<close> to \<^verbatim>\<open>cur_end + 1\<close> and goes on with the next window while
  \<^verbatim>\<open>cur_start <= end_ms\<close>. Only a body without a length (null, a number, a boolean)
  ends its loop, and the accumulated rows are returned through the closing
  dedup-and-sort.
\<close>

theorem empty_page_ends_or_next_window:
  assumes "binance_run symb end_ms pre (binance_init start_ms) = Next bst"
    and "bsrv \<lparr>bn_symbol = symb, bn_startTime = bn_cur_start bst, bn_endTime = end_ms,
               bn_limit = 1000\<rparr> = Body bj"
    and "no_entries bj"
    and "bybit_run fromiso symb' start_ts ypre (bybit_init end_ts) = Next yst"
    and "ysrv \<lparr>by_category = ''linear'', by_symbol = symb', by_startTime = start_ts,
               by_endTime = by_cur_end yst, by_limit = 200\<rparr> = Body yj"
    and "\<not> truthy (bybit_lst yj)"
    and "hyper_run symb'' (extract_coin_from_symbol symb'') end_ms' hpre (hyper_init start_ms')
           = Next hst"
    and "hsrv \<lparr>hl_type = ''fundingHistory'', hl_coin = extract_coin_from_symbol symb'',
               hl_startTime = hl_cur_start hst,
               hl_endTime = min end_ms' (hl_cur_start hst + window_ms - 1)\<rparr> = Body hj"
    and "no_entries hj"
    and "py_len hj = Inr n"
    and "hsrv' \<lparr>hl_type = ''fundingHistory'', hl_coin = extract_coin_from_symbol symb'',
               hl_startTime = hl_cur_start hst,
               hl_endTime = min end_ms' (hl_cur_start hst + window_ms - 1)\<rparr> = Body hj'"
    and "py_len hj' = Inl e"
  shows "fetch_binance_funding (pre @ bsrv # rest) symb start_ms end_ms = Some (bn_results bst)
       \<and> fetch_bybit_funding_v5 fromiso (ypre @ ysrv # yrest) symb' start_ts end_ts
           = Some (by_results yst)
       \<and> hyper_run symb'' (extract_coin_from_symbol symb'') end_ms' (hpre @ hsrv # hrest)
           (hyper_init start_ms')
           = hyper_run symb'' (extract_coin_from_symbol symb'') end_ms' hrest
              (hst\<lparr>hl_cur_start := min end_ms' (hl_cur_start hst + window_ms - 1) + 1,
                    hl_sent := hl_sent hst @
                      [\<lparr>hl_type = ''fundingHistory'',
                        hl_coin = extract_coin_from_symbol symb'',
                        hl_startTime = hl_cur_start hst,
                        hl_endTime = min end_ms' (hl_cur_start hst + window_ms - 1)\<rparr>]\<rparr>)
       \<and> fetch_hyper_funding_for_symbol (hpre @ hsrv' # hrest') symb'' start_ms' end_ms'
           = Some (dedup_sorted (hl_results hst))"
proof -
  have g: "hl_cur_start hst \<le> end_ms'" using assms(7) by (rule hyper_run_Next_guard)
  have b: "fetch_binance_funding (pre @ bsrv # rest) symb start_ms end_ms = Some (bn_results bst)"
    using assms(1-3)
    by (cases bj) (simp_all add: fetch_binance_funding_def binance_run_append binance_body_def)
  have y: "fetch_bybit_funding_v5 fromiso (ypre @ ysrv # yrest) symb' start_ts end_ts
           = Some (by_results yst)"
    using assms(4-6)
    by (simp add: fetch_bybit_funding_v5_def bybit_run_append bybit_body_def)
  have h: "hyper_body symb'' (extract_coin_from_symbol symb'') end_ms' hsrv hst =
       Next (hst\<lparr>hl_cur_start := min end_ms' (hl_cur_start hst + window_ms - 1) + 1,
                    hl_sent := hl_sent hst @
                      [\<lparr>hl_type = ''fundingHistory'',
                        hl_coin = extract_coin_from_symbol symb'',
                        hl_startTime = hl_cur_start hst,
                        hl_endTime = min end_ms' (hl_cur_start hst + window_ms - 1)\<rparr>]\<rparr>)"
    using assms(8-10) by (cases hj) (simp_all add: hyper_body_def Let_def)
  have h': "fetch_hyper_funding_for_symbol (hpre @ hsrv' # hrest') symb'' start_ms' end_ms'
           = Some (dedup_sorted (hl_results hst))"
    using assms(7,11,12) g
    by (simp add: fetch_hyper_funding_for_symbol_def hyper_run_append hyper_body_def)
  show ?thesis using b y h h' g assms(7) by (simp add: hyper_run_append)
qed

theorem empty_page_ends_or_next_window_witness:
  "fetch_binance_funding
     [\<lambda>q. Body (JArr (map binance_entry (every_8h 1734307200000 1000))), \<lambda>q. Body (JArr [])]
     ''BTCUSDT'' 1734307200000 1800000000000
   = Some (map binance_entry_row (every_8h 1734307200000 1000))
   \<and> fetch_bybit_funding_v5 (\<lambda>ft. None)
     [\<lambda>q. Body (bybit_reply (map bybit_entry (every_8h_down 1800000000000 200))),
      \<lambda>q. Body (bybit_reply [])]
     ''BTCUSDT'' 1734307200000 1800000000000
   = Some (map bybit_entry_row (every_8h_down 1800000000000 200))
   \<and> hyper_run ''ETH-USDC'' (extract_coin_from_symbol ''ETH-USDC'') 1800000000000
     [\<lambda>q. Body (JArr [hyper_entry 1734307200000 ''0.0000100'',
                        hyper_entry 1734310800000 ''0.0000125'']),
      \<lambda>q. Body (JArr [])]
     (hyper_init 1734307200000)
   = Next \<lparr>hl_results = [hyper_entry_row 1734307200000 ''0.0000100'',
                         hyper_entry_row 1734310800000 ''0.0000125''],
           hl_cur_start = 1736902800001,
           hl_sent = [\<lparr>hl_type = ''fundingHistory'', hl_coin = ''ETH'',
                       hl_startTime = 1734307200000, hl_endTime = 1736899199999\<rparr>,
                      \<lparr>hl_type = ''fundingHistory'', hl_coin = ''ETH'',
                       hl_startTime = 1734310800001, hl_endTime = 1736902800000\<rparr>]\<rparr>
   \<and> fetch_hyper_funding_for_symbol
     [\<lambda>q. Body (JArr [hyper_entry 1734307200000 ''0.0000100'',
                        hyper_entry 1734310800000 ''0.0000125'']),
      \<lambda>q. Body JNull]
     ''ETH-USDC'' 1734307200000 1800000000000
   = Some (Inr [hyper_entry_row 1734307200000 ''0.0000100'',
                hyper_entry_row 1734310800000 ''0.0000125''])"
  using empty_page_ends_or_next_window [OF binance_full_page_run _ _ bybit_full_page_run _ _
      hyper_page_run, of "\<lambda>q. Body (JArr [])" "JArr []" "\<lambda>q. Body (bybit_reply [])"
      "bybit_reply []" "\<lambda>q. Body (JArr [])" "JArr []" 0 "\<lambda>q. Body JNull" JNull TypeError
      "[]" "[]" "[]" "[]"]
  by (simp add: bybit_lst_reply window_ms_def extract_coin_eth dedup_sorted_def same_key_def
      hyper_entry_row_def)

text \<open>
  C5 as stated fails for Hyperliquid: the first window is answered by an empty list, and
  the fetcher still sends the request for the second window and returns its row.
\<close>

theorem hyper_empty_page_goes_on:
  "fetch_hyper_funding_for_symbol
     [\<lambda>q. Body (JArr []), \<lambda>q. Body (JArr [hyper_entry 1736902800000 ''0.0000125''])]
     ''ETH-USDC'' 1734307200000 1736902800000
   = Some (Inr [\<lparr>exchange = ''hyperliquid'', symbol = ''ETH-USDC'',
                  funding_time_ms = 1736902800000, funding_time_iso = ''2025-01-15T01:00:00Z'',
                  funding_rate = JStr ''0.0000125''\<rparr>])
   \<and> hyper_requests
     [\<lambda>q. Body (JArr []), \<lambda>q. Body (JArr [hyper_entry 1736902800000 ''0.0000125''])]
     ''ETH-USDC'' 1734307200000 1736902800000
   = Some [\<lparr>hl_type = ''fundingHistory'', hl_coin = ''ETH'',
            hl_startTime = 1734307200000, hl_endTime = 1736899199999\<rparr>,
           \<lparr>hl_type = ''fundingHistory'', hl_coin = ''ETH'',
            hl_startTime = 1736899200000, hl_endTime = 1736902800000\<rparr>]"
proof -
  have r: "hyper_row ''ETH-USDC'' (hyper_entry 1736902800000 ''0.0000125'')
           = Inr (Some (hyper_entry_row 1736902800000 ''0.0000125''))"
    by (simp add: hyper_row_entry MAX_MS_def)
  have lt: "hyper_last_time [hyper_entry 1736902800000 ''0.0000125''] = Inr 1736902800000"
    by (simp add: hyper_last_time_def hyper_ft_def hyper_entry_def)
  show ?thesis
    by (simp add: fetch_hyper_funding_for_symbol_def hyper_requests_def extract_coin_eth
        hyper_init_def hyper_body_def window_ms_def r lt dedup_sorted_def
        hyper_entry_row_def iso_2025_01_15_01)
qed

text \<open>
  C6 (as amended): in \<^verbatim>\<open>fetch_bybit_funding_v5\<close> and
  \<^verbatim>\<open>fetch_hyper_funding_for_symbol\<close> an entry (a dict) whose timestamp is missing or is
  read by no parser adds no row, and the loop goes on with the next entry: the page gives
  the rows it would give without that entry. \<^verbatim>\<open>fetch_binance_funding\<close> has no such
  guard: at the first entry whose \<^verbatim>\<open>fundingTime\<close> is missing or not an integer the
  exception ends the fetch of the symbol, which returns the rows built until then; the
  entries after it and all later pages are not read.
\<close>

theorem unparseable_entry:
  assumes "bad = JObj kvs" and "bybit_entry_time fromiso bad = None"
    and "bad' = JObj kvs'" and "hyper_entry_time bad' = None"
    and "binance_time bad'' = Inl e"
    and "binance_run symb'' end_ms pre (binance_init start_ms) = Next bst"
    and "bsrv \<lparr>bn_symbol = symb'', bn_startTime = bn_cur_start bst, bn_endTime = end_ms,
               bn_limit = 1000\<rparr> = Body (JArr (xs'' @ bad'' # ys''))"
    and "map (binance_row symb'') xs'' = map Inr rows"
  shows "bybit_items fromiso symb (xs @ bad # ys) acc = bybit_items fromiso symb (xs @ ys) acc
       \<and> hyper_items symb' (xs' @ bad' # ys') acc' = hyper_items symb' (xs' @ ys') acc'
       \<and> fetch_binance_funding (pre @ bsrv # rest) symb'' start_ms end_ms
           = Some (bn_results bst @ rows)"
proof -
  have y: "bybit_items fromiso symb (xs @ bad # ys) acc = bybit_items fromiso symb (xs @ ys) acc"
    by (rule bybit_items_skip) (rule bybit_row_skipped [OF assms(1,2)])
  have h: "hyper_items symb' (xs' @ bad' # ys') acc' = hyper_items symb' (xs' @ ys') acc'"
    by (rule hyper_items_skip) (rule hyper_row_skipped [OF assms(3,4)])
  have b: "fetch_binance_funding (pre @ bsrv # rest) symb'' start_ms end_ms
           = Some (bn_results bst @ rows)"
    using assms(6,7) binance_items_abort [OF assms(8,5), of ys'' "bn_results bst"]
    by (simp add: fetch_binance_funding_def binance_run_append binance_body_def)
  show ?thesis using y h b by simp
qed

theorem unparseable_entry_witness:
  "bybit_items iso_table ''BTCUSDT''
     ([bybit_entry 1734336000000] @ bybit_word_entry # [bybit_entry 1734307200000]) []
   = bybit_items iso_table ''BTCUSDT''
     ([bybit_entry 1734336000000] @ [bybit_entry 1734307200000]) []
   \<and> hyper_items ''ETH-USDC''
     ([hyper_entry 1734307200000 ''0.0000100''] @ entry_without_time
        # [hyper_entry 1734310800000 ''0.0000125'']) []
   = hyper_items ''ETH-USDC''
     ([hyper_entry 1734307200000 ''0.0000100''] @ [hyper_entry 1734310800000 ''0.0000125'']) []
   \<and> fetch_binance_funding
     ([\<lambda>q. Body (JArr (map binance_entry (every_8h 1734307200000 1000)))]
      @ (\<lambda>q. Body (JArr ([binance_entry 1763107200000] @ entry_without_time
                            # [binance_entry 1763136000000]))) # [])
     ''BTCUSDT'' 1734307200000 1800000000000
   = Some (bn_results
             \<lparr>bn_results = map binance_entry_row (every_8h 1734307200000 1000),
              bn_cur_start = 1763078400001,
              bn_sent = [\<lparr>bn_symbol = ''BTCUSDT'', bn_startTime = 1734307200000,
                          bn_endTime = 1800000000000, bn_limit = 1000\<rparr>]\<rparr>
           @ [binance_entry_row 1763107200000])"
proof -
  have y: "bybit_entry_time iso_table bybit_word_entry = None"
    by (simp add: bybit_entry_time_def bybit_ft_def bybit_word_entry_def entry_time_def
        int_of_string_word iso_table_def)
  have h: "hyper_entry_time entry_without_time = None"
    by (simp add: hyper_entry_time_def hyper_ft_def entry_without_time_def entry_time_def)
  have b: "binance_time entry_without_time = Inl TypeError"
    by (simp add: binance_time_def entry_without_time_def)
  have r: "map (binance_row ''BTCUSDT'') [binance_entry 1763107200000] =
      map Inr [binance_entry_row 1763107200000]"
    by (simp add: binance_row_entry MIN_MS_def MAX_MS_def)
  show ?thesis
    by (rule unparseable_entry [OF bybit_word_entry_def y entry_without_time_def h b
          binance_full_page_run _ r]) simp
qed

text \<open>
  C6 as stated fails for Binance: the second entry of the page has no \<^verbatim>\<open>fundingTime\<close>;
  the row of the first entry is returned, the third entry is never read.
\<close>

theorem binance_stops_at_unparseable_entry:
  "fetch_binance_funding
     [\<lambda>q. Body (JArr [binance_entry 1734307200000, entry_without_time,
                        binance_entry 1734336000000])]
     ''BTCUSDT'' 1734307200000 1800000000000
   = Some [\<lparr>exchange = ''binance'', symbol = ''BTCUSDT'', funding_time_ms = 1734307200000,
            funding_time_iso = ''2024-12-16T00:00:00Z'',
            funding_rate = JStr ''0.00010000''\<rparr>]"
proof -
  have r: "binance_row ''BTCUSDT'' (binance_entry 1734307200000) =
      Inr (binance_entry_row 1734307200000)"
    by (simp add: binance_row_entry MIN_MS_def MAX_MS_def)
  have b: "binance_row ''BTCUSDT'' entry_without_time = Inl TypeError"
    by (simp add: binance_row_def binance_time_def entry_without_time_def)
  show ?thesis
    by (simp add: fetch_binance_funding_def binance_init_def binance_body_def r b
        binance_entry_row_def iso_2024_12_16_00)
qed

text \<open>
  C7 (as amended): the Hyperliquid fetcher does not cut \<open>[start_ms, end_ms]\<close> into
  windows beforehand. Each request is computed inside the loop: it starts at
  \<^verbatim>\<open>cur_start\<close> (first \<^verbatim>\<open>start_ms\<close>) and ends at
  \<^verbatim>\<open>min(end_ms, cur_start + 30 days - 1)\<close>, and one request is sent per window. After an
  answer without entries the next window starts one millisecond after the end of this
  one. After an answer with entries, all of them read, whose last entry carries an integer
  time \<open>t\<close> in milliseconds (\<open>t \<ge> 10^12\<close>), the rows of the answer are appended to the
  accumulated ones and the next window starts at \<open>t + 1\<close>. When every answer is empty,
  the requests are the fixed 30-day segmentation of the interval. Deduplication by
  \<^verbatim>\<open>(funding_time_ms, funding_rate)\<close> and the ascending sort are applied once, to all
  accumulated rows, after the loop: what is returned is sorted by \<^verbatim>\<open>funding_time_ms\<close>,
  holds no two rows with the same pair, holds accumulated rows only, and holds a row for
  every pair among the accumulated rows.
\<close>

theorem hyper_windows_and_closing_sort:
  assumes "hyper_requests net symb start_ms end_ms = Some reqs"
    and "hyper_run symb' (extract_coin_from_symbol symb') end_ms' pre (hyper_init start_ms')
           = Next st"
    and "srv0 \<lparr>hl_type = ''fundingHistory'', hl_coin = extract_coin_from_symbol symb',
               hl_startTime = hl_cur_start st,
               hl_endTime = min end_ms' (hl_cur_start st + window_ms - 1)\<rparr> = Body j"
    and "no_entries j" and "py_len j = Inr k"
    and "srv \<lparr>hl_type = ''fundingHistory'', hl_coin = extract_coin_from_symbol symb',
               hl_startTime = hl_cur_start st,
               hl_endTime = min end_ms' (hl_cur_start st + window_ms - 1)\<rparr>
           = Body (JArr page)"
    and "page \<noteq> []"
    and "hyper_items symb' page (hl_results st) = Done rs"
    and "hyper_raw (last page) = Some t" and "10 ^ 12 \<le> t"
    and "start_ms'' \<le> end_ms''"
    and "length (fixed_windows (extract_coin_from_symbol symb'') start_ms'' end_ms'') \<le> n"
    and "hyper_run symb3 (extract_coin_from_symbol symb3) end_ms3 net3 (hyper_init start_ms3)
           = Break fin"
    and "fetch_hyper_funding_for_symbol net3 symb3 start_ms3 end_ms3 = Some (Inr rows)"
  shows "list_all (\<lambda>q. hl_type q = ''fundingHistory''
              \<and> hl_coin q = extract_coin_from_symbol symb
              \<and> hl_startTime q \<le> end_ms
              \<and> hl_endTime q = min end_ms (hl_startTime q + window_ms - 1)) reqs
       \<and> (reqs = [] \<or> hl_startTime (hd reqs) = start_ms)
       \<and> hyper_run symb' (extract_coin_from_symbol symb') end_ms' (pre @ srv0 # rest0)
           (hyper_init start_ms')
           = hyper_run symb' (extract_coin_from_symbol symb') end_ms' rest0
              (st\<lparr>hl_cur_start := min end_ms' (hl_cur_start st + window_ms - 1) + 1,
                   hl_sent := hl_sent st @
                     [\<lparr>hl_type = ''fundingHistory'',
                       hl_coin = extract_coin_from_symbol symb',
                       hl_startTime = hl_cur_start st,
                       hl_endTime = min end_ms' (hl_cur_start st + window_ms - 1)\<rparr>]\<rparr>)
       \<and> hyper_run symb' (extract_coin_from_symbol symb') end_ms' (pre @ srv # rest)
           (hyper_init start_ms')
           = hyper_run symb' (extract_coin_from_symbol symb') end_ms' rest
              (st\<lparr>hl_results := rs, hl_cur_start := t + 1,
                   hl_sent := hl_sent st @
                     [\<lparr>hl_type = ''fundingHistory'',
                       hl_coin = extract_coin_from_symbol symb',
                       hl_startTime = hl_cur_start st,
                       hl_endTime = min end_ms' (hl_cur_start st + window_ms - 1)\<rparr>]\<rparr>)
       \<and> (\<exists>new. rs = hl_results st @ new
             \<and> map funding_time_ms new = List.map_filter hyper_entry_time page)
       \<and> hyper_requests (replicate n (\<lambda>q. Body (JArr []))) symb'' start_ms'' end_ms''
           = Some (fixed_windows (extract_coin_from_symbol symb'') start_ms'' end_ms'')
       \<and> dedup_sorted (hl_results fin) = Inr rows
       \<and> sorted (map funding_time_ms rows) \<and> distinct (map row_key rows)
       \<and> set rows \<subseteq> set (hl_results fin)
       \<and> set (map row_key rows) = set (map row_key (hl_results fin))"
proof -
  let ?coin = "extract_coin_from_symbol symb"
  let ?coin' = "extract_coin_from_symbol symb'"
  let ?run = "hyper_run symb ?coin end_ms net (hyper_init start_ms)"
  from assms(1) have reqs: "reqs = hl_sent (flow_state ?run)"
    by (auto simp: hyper_requests_def split: flow.splits)
  have a: "list_all (\<lambda>q. hl_type q = ''fundingHistory'' \<and> hl_coin q = ?coin
              \<and> hl_startTime q \<le> end_ms
              \<and> hl_endTime q = min end_ms (hl_startTime q + window_ms - 1)) reqs"
    unfolding reqs by (rule hyper_run_sent) (simp add: hyper_init_def)
  have b: "reqs = [] \<or> hl_startTime (hd reqs) = start_ms"
    unfolding reqs
    using hyper_run_first_request [of "hyper_init start_ms" symb ?coin end_ms net]
    by (simp add: hyper_init_def)
  note c = hyper_run_step [OF assms(2) hyper_body_no_entries
      [where srv = srv0 and st = st and coin = ?coin' and end_ms = end_ms', OF assms(3-5)],
      of rest0]
  note d = hyper_run_step [OF assms(2) hyper_body_entries
      [where srv = srv and st = st and coin = ?coin' and end_ms = end_ms', OF assms(6-9)],
      of rest]
  note e = hyper_items_appended [OF assms(8)]
  have f: "hyper_requests (replicate n (\<lambda>q. Body (JArr []))) symb'' start_ms'' end_ms''
           = Some (fixed_windows (extract_coin_from_symbol symb'') start_ms'' end_ms'')"
    using hyper_run_empty_answers [of "hyper_init start_ms''" end_ms''
        "extract_coin_from_symbol symb''" n symb''] assms(11,12)
    by (auto simp: hyper_requests_def hyper_init_def)
  from assms(13,14) have g: "dedup_sorted (hl_results fin) = Inr rows"
    by (simp add: fetch_hyper_funding_for_symbol_def)
  from a b c d e f g dedup_sorted_props [OF g] dedup_sorted_keys [OF g] show ?thesis
    by (intro conjI)
qed

theorem hyper_windows_and_closing_sort_witness:
  "list_all (\<lambda>q. hl_type q = ''fundingHistory''
              \<and> hl_coin q = extract_coin_from_symbol ''ETH-USDC''
              \<and> hl_startTime q \<le> 1736899200000
              \<and> hl_endTime q = min 1736899200000 (hl_startTime q + window_ms - 1))
     [\<lparr>hl_type = ''fundingHistory'', hl_coin = ''ETH'',
       hl_startTime = 1734307200000, hl_endTime = 1736899199999\<rparr>,
      \<lparr>hl_type = ''fundingHistory'', hl_coin = ''ETH'',
       hl_startTime = 1734310800001, hl_endTime = 1736899200000\<rparr>]
   \<and> ([\<lparr>hl_type = ''fundingHistory'', hl_coin = ''ETH'',
         hl_startTime = 1734307200000, hl_endTime = 1736899199999\<rparr>,
        \<lparr>hl_type = ''fundingHistory'', hl_coin = ''ETH'',
         hl_startTime = 1734310800001, hl_endTime = 1736899200000\<rparr>] = []
      \<or> hl_startTime (hd [\<lparr>hl_type = ''fundingHistory'', hl_coin = ''ETH'',
         hl_startTime = 1734307200000, hl_endTime = 1736899199999\<rparr>,
        \<lparr>hl_type = ''fundingHistory'', hl_coin = ''ETH'',
         hl_startTime = 1734310800001, hl_endTime = 1736899200000\<rparr>]) = 1734307200000)
   \<and> hyper_run ''ETH-USDC'' (extract_coin_from_symbol ''ETH-USDC'') 1800000000000
        ([\<lambda>q. Body (JArr [hyper_entry 1734307200000 ''0.0000100'',
                            hyper_entry 1734310800000 ''0.0000125''])]
         @ (\<lambda>q. Body (JArr [])) # [])
        (hyper_init 1734307200000)
      = hyper_run ''ETH-USDC'' (extract_coin_from_symbol ''ETH-USDC'') 1800000000000 []
          (hyper_after_page
             \<lparr>hl_cur_start :=
                min 1800000000000 (hl_cur_start hyper_after_page + window_ms - 1) + 1,
              hl_sent := hl_sent hyper_after_page @
                [\<lparr>hl_type = ''fundingHistory'',
                  hl_coin = extract_coin_from_symbol ''ETH-USDC'',
                  hl_startTime = hl_cur_start hyper_after_page,
                  hl_endTime =
                    min 1800000000000 (hl_cur_start hyper_after_page + window_ms - 1)\<rparr>]\<rparr>)
   \<and> hyper_run ''ETH-USDC'' (extract_coin_from_symbol ''ETH-USDC'') 1800000000000
        ([\<lambda>q. Body (JArr [hyper_entry 1734307200000 ''0.0000100'',
                            hyper_entry 1734310800000 ''0.0000125''])]
         @ (\<lambda>q. Body (JArr [hyper_entry 1734314400000 ''0.0000150''])) # [])
        (hyper_init 1734307200000)
      = hyper_run ''ETH-USDC'' (extract_coin_from_symbol ''ETH-USDC'') 1800000000000 []
          (hyper_after_page
             \<lparr>hl_results := [hyper_entry_row 1734307200000 ''0.0000100'',
                             hyper_entry_row 1734310800000 ''0.0000125'',
                             hyper_entry_row 1734314400000 ''0.0000150''],
              hl_cur_start := 1734314400000 + 1,
              hl_sent := hl_sent hyper_after_page @
                [\<lparr>hl_type = ''fundingHistory'',
                  hl_coin = extract_coin_from_symbol ''ETH-USDC'',
                  hl_startTime = hl_cur_start hyper_after_page,
                  hl_endTime =
                    min 1800000000000 (hl_cur_start hyper_after_page + window_ms - 1)\<rparr>]\<rparr>)
   \<and> (\<exists>new. [hyper_entry_row 1734307200000 ''0.0000100'',
              hyper_entry_row 1734310800000 ''0.0000125'',
              hyper_entry_row 1734314400000 ''0.0000150''] = hl_results hyper_after_page @ new
          \<and> map funding_time_ms new =
              List.map_filter hyper_entry_time [hyper_entry 1734314400000 ''0.0000150''])
   \<and> hyper_requests (replicate 2 (\<lambda>q. Body (JArr []))) ''ETH-USDC'' 1734307200000
        1736899200000
      = Some (fixed_windows (extract_coin_from_symbol ''ETH-USDC'') 1734307200000
                1736899200000)
   \<and> dedup_sorted
        (hl_results
           \<lparr>hl_results = [hyper_entry_row 1734307200000 ''0.0000100'',
                           hyper_entry_row 1734310800000 ''0.0000125''],
            hl_cur_start = 1734310800001,
            hl_sent = [\<lparr>hl_type = ''fundingHistory'', hl_coin = ''ETH'',
                        hl_startTime = 1734307200000, hl_endTime = 1736899199999\<rparr>,
                       \<lparr>hl_type = ''fundingHistory'', hl_coin = ''ETH'',
                        hl_startTime = 1734310800001, hl_endTime = 1736899200000\<rparr>]\<rparr>)
      = Inr [hyper_entry_row 1734307200000 ''0.0000100'',
             hyper_entry_row 1734310800000 ''0.0000125'']
   \<and> sorted (map funding_time_ms [hyper_entry_row 1734307200000 ''0.0000100'',
                                   hyper_entry_row 1734310800000 ''0.0000125''])
   \<and> distinct (map row_key [hyper_entry_row 1734307200000 ''0.0000100'',
                             hyper_entry_row 1734310800000 ''0.0000125''])
   \<and> set [hyper_entry_row 1734307200000 ''0.0000100'',
            hyper_entry_row 1734310800000 ''0.0000125'']
      \<subseteq> set (hl_results
           \<lparr>hl_results = [hyper_entry_row 1734307200000 ''0.0000100'',
                           hyper_entry_row 1734310800000 ''0.0000125''],
            hl_cur_start = 1734310800001,
            hl_sent = [\<lparr>hl_type = ''fundingHistory'', hl_coin = ''ETH'',
                        hl_startTime = 1734307200000, hl_endTime = 1736899199999\<rparr>,
                       \<lparr>hl_type = ''fundingHistory'', hl_coin = ''ETH'',
                        hl_startTime = 1734310800001, hl_endTime = 1736899200000\<rparr>]\<rparr>)
   \<and> set (map row_key [hyper_entry_row 1734307200000 ''0.0000100'',
                         hyper_entry_row 1734310800000 ''0.0000125''])
      = set (map row_key (hl_results
           \<lparr>hl_results = [hyper_entry_row 1734307200000 ''0.0000100'',
                           hyper_entry_row 1734310800000 ''0.0000125''],
            hl_cur_start = 1734310800001,
            hl_sent = [\<lparr>hl_type = ''fundingHistory'', hl_coin = ''ETH'',
                        hl_startTime = 1734307200000, hl_endTime = 1736899199999\<rparr>,
                       \<lparr>hl_type = ''fundingHistory'', hl_coin = ''ETH'',
                        hl_startTime = 1734310800001, hl_endTime = 1736899200000\<rparr>]\<rparr>))"
proof -
  have w1: "hyper_requests
       [\<lambda>q. Body (JArr [hyper_entry 1734307200000 ''0.0000100'',
                          hyper_entry 1734310800000 ''0.0000125'']), \<lambda>q. Failed]
       ''ETH-USDC'' 1734307200000 1736899200000
     = Some [\<lparr>hl_type = ''fundingHistory'', hl_coin = ''ETH'',
              hl_startTime = 1734307200000, hl_endTime = 1736899199999\<rparr>,
             \<lparr>hl_type = ''fundingHistory'', hl_coin = ''ETH'',
              hl_startTime = 1734310800001, hl_endTime = 1736899200000\<rparr>]"
    unfolding hyper_requests_def hyper_page_then_failure by simp
  have w2: "hyper_run ''ETH-USDC'' (extract_coin_from_symbol ''ETH-USDC'') 1800000000000
       [\<lambda>q. Body (JArr [hyper_entry 1734307200000 ''0.0000100'',
                          hyper_entry 1734310800000 ''0.0000125''])]
       (hyper_init 1734307200000) = Next hyper_after_page"
    unfolding hyper_page_run hyper_after_page_def ..
  have w4: "no_entries (JArr [])" by simp
  have w5: "py_len (JArr []) = Inr 0" by simp
  have w7: "[hyper_entry 1734314400000 ''0.0000150''] \<noteq> []" by simp
  have w8: "hyper_items ''ETH-USDC'' [hyper_entry 1734314400000 ''0.0000150'']
       (hl_results hyper_after_page)
     = Done [hyper_entry_row 1734307200000 ''0.0000100'',
             hyper_entry_row 1734310800000 ''0.0000125'',
             hyper_entry_row 1734314400000 ''0.0000150'']"
    by (simp add: hyper_row_entry MAX_MS_def hyper_after_page_def)
  have w9: "hyper_raw (last [hyper_entry 1734314400000 ''0.0000150'']) = Some 1734314400000"
    by (simp add: hyper_raw_def raw_int_def hyper_ft_def hyper_entry_def)
  have w10: "(10 :: int) ^ 12 \<le> 1734314400000" by simp
  have w11: "(1734307200000 :: int) \<le> 1736899200000" by simp
  have w12: "length (fixed_windows (extract_coin_from_symbol ''ETH-USDC'') 1734307200000
             1736899200000) \<le> 2"
    by (simp add: extract_coin_eth fixed_windows_two)
  have w14: "fetch_hyper_funding_for_symbol
       [\<lambda>q. Body (JArr [hyper_entry 1734307200000 ''0.0000100'',
                          hyper_entry 1734310800000 ''0.0000125'']), \<lambda>q. Failed]
       ''ETH-USDC'' 1734307200000 1736899200000
     = Some (Inr [hyper_entry_row 1734307200000 ''0.0000100'',
                  hyper_entry_row 1734310800000 ''0.0000125''])"
    unfolding fetch_hyper_funding_for_symbol_def hyper_page_then_failure
    by (simp add: dedup_sorted_two_rows)
  show ?thesis
    by (rule hyper_windows_and_closing_sort
        [where ?srv0.0 = "\<lambda>q. Body (JArr [])"
           and srv = "\<lambda>q. Body (JArr [hyper_entry 1734314400000 ''0.0000150''])",
         OF w1 w2 _ w4 w5 _ w7 w8 w9 w10 w11 w12 hyper_page_then_failure w14])
       (rule refl)+
qed

text \<open>
  C7 as stated fails: over an interval of two fixed windows, the first answer holds two
  entries, and the second request starts one millisecond after the later of them, not
  at the start of the second fixed window.
\<close>

theorem hyper_second_request_follows_last_entry:
  "hyper_requests
     [\<lambda>q. Body (JArr [hyper_entry 1734307200000 ''0.0000100'',
                        hyper_entry 1734310800000 ''0.0000125'']), \<lambda>q. Failed]
     ''ETH-USDC'' 1734307200000 1736899200000
   = Some [\<lparr>hl_type = ''fundingHistory'', hl_coin = ''ETH'',
            hl_startTime = 1734307200000, hl_endTime = 1736899199999\<rparr>,
           \<lparr>hl_type = ''fundingHistory'', hl_coin = ''ETH'',
            hl_startTime = 1734310800001, hl_endTime = 1736899200000\<rparr>]
   \<and> fixed_windows ''ETH'' 1734307200000 1736899200000
   = [\<lparr>hl_type = ''fundingHistory'', hl_coin = ''ETH'',
       hl_startTime = 1734307200000, hl_endTime = 1736899199999\<rparr>,
      \<lparr>hl_type = ''fundingHistory'', hl_coin = ''ETH'',
       hl_startTime = 1736899200000, hl_endTime = 1736899200000\<rparr>]"
  unfolding hyper_requests_def hyper_page_then_failure fixed_windows_two by simp




text \<open>
  C10: the \<^verbatim>\<open>coin\<close> field of the request body is the leading run of letters of the
  symbol, so that \<^verbatim>\<open>ETHUSDC\<close> asks for coin \<^verbatim>\<open>ETH\<close>. The code does not do that for
  this symbol: every character of \<^verbatim>\<open>ETHUSDC\<close> is a letter, the pattern matches the
  whole symbol, and the request carries coin \<^verbatim>\<open>ETHUSDC\<close>.
\<close>

theorem hyper_coin_whole_symbol:
  "extract_coin_from_symbol ''ETHUSDC'' = ''ETHUSDC''
   \<and> hyper_requests [\<lambda>q. Failed] ''ETHUSDC'' 1734307200000 1734307200000 =
       Some [\<lparr>hl_type = ''fundingHistory'', hl_coin = ''ETHUSDC'',
              hl_startTime = 1734307200000, hl_endTime = 1734307200000\<rparr>]"
  by (simp add: extract_coin_from_symbol_def is_ascii_letter_def hyper_requests_def
      hyper_init_def hyper_body_def window_ms_def)

end
